theory Spec2Isabelle
  imports Complex_Main "HOL-Library.Sublist"
begin

section \<open>Strings and numbers of the host language\<close>

text \<open>
  The program is TypeScript running in a browser. Its strings are modelled as HOL
  strings, every character read as one code unit in the range U+0000..U+00FF; its
  numbers (segment offsets, the source duration, the progress percentage) are modelled
  as reals with the usual order and exact arithmetic, so the values \<open>NaN\<close> and
  \<open>Infinity\<close> and the rounding of doubles are outside the model. Array indices and
  counters are natural numbers. Calls of \<open>debugLog\<close> only write to the console and are
  left out.
\<close>

text \<open>\<open>s.includes(sub)\<close>: \<open>sub\<close> occurs in \<open>s\<close> as a contiguous run.\<close>

fun includes_str :: "string \<Rightarrow> string \<Rightarrow> bool" where
  "includes_str [] sub = (sub = [])"
| "includes_str (c # cs) sub = (prefix sub (c # cs) \<or> includes_str cs sub)"

text \<open>\<open>s.startsWith(p)\<close>.\<close>

definition startsWith :: "string \<Rightarrow> string \<Rightarrow> bool" where
  "startsWith s p = prefix p s"

text \<open>
  The white space that \<open>trim\<close> removes, among the code units below 256: tab, line
  feed, vertical tab, form feed, carriage return, space and the no-break space.
\<close>

definition is_whitespace :: "char \<Rightarrow> bool" where
  "is_whitespace c = (of_char c \<in> {9, 10, 11, 12, 13, 32, 160 :: nat})"

definition trim :: "string \<Rightarrow> string" where
  "trim s = rev (dropWhile is_whitespace (rev (dropWhile is_whitespace s)))"

section \<open>Data model (lib/types.ts)\<close>

record VideoSegment =
  seg_start :: real
  seg_end :: real

text \<open>A \<open>Blob\<close>: its bytes and its declared media type.\<close>

record Blob =
  blob_data :: "nat list"
  blob_type :: string

text \<open>\<open>OutputVideo\<close>; the field \<open>format\<close> is optional in the source.\<close>

record OutputVideo =
  name :: string
  url :: string
  blob :: Blob
  format :: "string option"

text \<open>An output configuration \<open>{ name, segments }\<close>.\<close>

record config =
  cfg_name :: string
  segments :: "VideoSegment list"

text \<open>A \<open>File\<close> of the browser, as far as the program reads it.\<close>

record File =
  file_name :: string
  file_type :: string

section \<open>Results viewer: \<open>handleDownload\<close>\<close>

text \<open>
  The value of \<open>a.download\<close> that \<open>handleDownload\<close> sets before it clicks the
  anchor. \<open>if (video.format)\<close> is false for a missing and for an empty format, and
  \<open>else if (video.blob.type)\<close> is false for an empty type.
\<close>

definition handleDownload :: "OutputVideo \<Rightarrow> string" where
  "handleDownload video =
     (let from_blob =
            (if blob_type (blob video) \<noteq> [] then
               (if includes_str (blob_type (blob video)) ''webm'' then ''webm''
                else if includes_str (blob_type (blob video)) ''ogg'' then ''ogg''
                else if includes_str (blob_type (blob video)) ''quicktime'' then ''mov''
                else ''mp4'')
             else ''mp4'');
          extension =
            (case format video of
               None \<Rightarrow> from_blob
             | Some f \<Rightarrow>
                 if f \<noteq> [] then
                   (if includes_str f ''webm'' then ''webm''
                    else if includes_str f ''ogg'' then ''ogg''
                    else if includes_str f ''quicktime'' then ''mov''
                    else if includes_str f ''m4a'' then ''m4a''
                    else ''mp4'')
                 else from_blob)
      in name video @ ''.'' @ extension)"

section \<open>Upload surface: \<open>handleDrop\<close> and \<open>handleFileChange\<close>\<close>

text \<open>
  Both handlers receive the event's file list (\<open>None\<close> for a null list) and return
  the file they pass to \<open>onVideoUpload\<close>, or \<open>None\<close> when they do not call it. The
  drag highlight that \<open>handleDrop\<close> resets is not modelled.
\<close>

definition handleDrop :: "File list option \<Rightarrow> File option" where
  "handleDrop files =
     (case files of
        None \<Rightarrow> None
      | Some [] \<Rightarrow> None
      | Some (file # _) \<Rightarrow>
          if startsWith (file_type file) ''video/'' then Some file else None)"

definition handleFileChange :: "File list option \<Rightarrow> File option" where
  "handleFileChange files =
     (case files of
        None \<Rightarrow> None
      | Some [] \<Rightarrow> None
      | Some (file # _) \<Rightarrow> Some file)"

section \<open>The processing module (lib/video-processor.ts)\<close>

subsection \<open>More string operations\<close>

text \<open>\<open>s.split(sep).pop()\<close>: what follows the last \<open>sep\<close> (all of \<open>s\<close> without one).\<close>

definition last_piece :: "char \<Rightarrow> string \<Rightarrow> string" where
  "last_piece sep s = rev (takeWhile (\<lambda>c. c \<noteq> sep) (rev s))"

text \<open>\<open>s.split(sep)[0]\<close>: what precedes the first \<open>sep\<close>.\<close>

definition first_piece :: "char \<Rightarrow> string \<Rightarrow> string" where
  "first_piece sep s = takeWhile (\<lambda>c. c \<noteq> sep) s"

text \<open>\<open>toLowerCase\<close> on the code units below 256.\<close>

definition lower_char :: "char \<Rightarrow> char" where
  "lower_char c =
     (let n = (of_char c :: nat)
      in if (65 \<le> n \<and> n \<le> 90) \<or> (192 \<le> n \<and> n \<le> 222 \<and> n \<noteq> 215)
         then char_of (n + 32) else c)"

definition toLowerCase :: "string \<Rightarrow> string" where
  "toLowerCase s = map lower_char s"

text \<open>A decimal numeral, as a template literal prints a non-negative integer.\<close>

fun digits_of :: "nat \<Rightarrow> nat \<Rightarrow> string" where
  "digits_of 0 n = []"
| "digits_of (Suc fuel) n =
     (if n < 10 then [char_of (48 + n)]
      else digits_of fuel (n div 10) @ [char_of (48 + n mod 10)])"

definition string_of_nat :: "nat \<Rightarrow> string" where
  "string_of_nat n = digits_of (Suc n) n"

subsection \<open>Promises, the host and the module state\<close>

text \<open>
  How a promise settles: \<open>Rejected\<close> carries the message of the \<open>Error\<close> thrown,
  \<open>Fulfilled\<close> the value. The model takes every promise the host owes to settle.
\<close>

datatype 'a settled = Rejected string | Fulfilled 'a

text \<open>
  What the browser does with the hidden element and the recorder of one call of
  \<open>extractVideoSegment\<close>: the element reports an error; \<open>captureStream\<close> yields
  null; \<open>captureStream\<close> or the \<open>MediaRecorder\<close> constructor throws (an
  unsupported type, a missing recorder) with the given message; \<open>play()\<close> is refused;
  or the recorder runs until the timer stops it, having delivered the given chunks.
\<close>

datatype extract_event =
    ElementError
  | StreamNull
  | Thrown string
  | PlayRejected
  | Recorded "Blob list"

text \<open>
  The same for the re-recording inside \<open>combineVideoSegments\<close>. \<open>CombinePlayRejected k e\<close>:
  \<open>play()\<close> of the segment with index \<open>k\<close> is refused with an error printed as \<open>e\<close>.
\<close>

datatype combine_event =
    CombineElementError
  | CombineNoContext
  | CombineStreamNull
  | CombineThrown string
  | CombinePlayRejected nat string
  | CombineRecorded "Blob list"

text \<open>
  The browser and the user, as one run of the module meets them. \<open>extract_event h i j\<close>
  is the browser's reaction to the extraction of segment \<open>j\<close> of configuration \<open>i\<close>,
  \<open>combine_event h i\<close> its reaction to the combination for configuration \<open>i\<close>, and
  \<open>createObjectURL h i\<close> the object URL it hands out for the final blob of
  configuration \<open>i\<close>. The three \<open>cancel_during\<close> fields say whether the user's
  cancel handler runs \<open>cancelProcessing\<close> while \<open>processVideos\<close> is suspended on
  the corresponding promise.
\<close>

record host =
  source_loads :: bool
  videoWidth :: nat
  videoHeight :: nat
  mozHasAudio :: "bool option"
  isTypeSupported :: "string \<Rightarrow> bool"
  extract_event :: "nat \<Rightarrow> nat \<Rightarrow> extract_event"
  combine_event :: "nat \<Rightarrow> combine_event"
  createObjectURL :: "nat \<Rightarrow> string"
  cancel_during_load :: bool
  cancel_during_extract :: "nat \<Rightarrow> nat \<Rightarrow> bool"
  cancel_during_combine :: "nat \<Rightarrow> bool"

text \<open>
  What a run does that can be observed from outside, in order: a call of
  \<open>extractVideoSegment\<close> (configuration, segment, start and end time), a segment blob
  pushed to \<open>segmentBlobs\<close>, a call of \<open>onProgress\<close>, a call of
  \<open>combineVideoSegments\<close> from \<open>processVideos\<close>, the set-up of the hidden playback
  element for the re-recording, and a call of \<open>cancelProcessing\<close>.
\<close>

datatype effect =
    ExtractCalled nat nat real real
  | SegmentCaptured nat nat
  | Progress real
  | CombineCalled nat "Blob list"
  | Rerecording nat "Blob list"
  | CancelCalled

text \<open>The module-level flag \<open>isCancelled\<close>, and the effects so far.\<close>

record proc_state =
  isCancelled :: bool
  effects :: "effect list"

record VideoProperties =
  vp_width :: nat
  vp_height :: nat
  vp_frameRate :: nat
  vp_bitrate :: nat
  vp_format :: string
  vp_hasAudio :: bool

definition emit :: "effect list \<Rightarrow> proc_state \<Rightarrow> proc_state" where
  "emit es st = st\<lparr>effects := effects st @ es\<rparr>"

definition cancelProcessing :: "proc_state \<Rightarrow> proc_state" where
  "cancelProcessing st = st\<lparr>isCancelled := True\<rparr>"

text \<open>
  A suspension of \<open>processVideos\<close> on a promise of the host: if the user clicks
  cancel meanwhile, the handler calls \<open>cancelProcessing\<close>.
\<close>

definition while_pending :: "bool \<Rightarrow> proc_state \<Rightarrow> proc_state" where
  "while_pending clicked st =
     (if clicked then cancelProcessing (emit [CancelCalled] st) else st)"

subsection \<open>\<open>getVideoProperties\<close>\<close>

definition getVideoProperties :: "host \<Rightarrow> string \<Rightarrow> VideoProperties" where
  "getVideoProperties h videoUrl =
     (let width = videoWidth h;
          height = videoHeight h;
          extension = toLowerCase (last_piece CHR ''.'' videoUrl);
          fmt =
            (if extension \<noteq> [] then
               (if extension = ''mp4'' then ''video/mp4''
                else if extension = ''webm'' then ''video/webm''
                else if extension = ''ogg'' then ''video/ogg''
                else if extension = ''mov'' then ''video/quicktime''
                else if extension = ''m4a'' \<or> extension = ''m4v'' then ''video/mp4''
                else if extension = ''avi'' then ''video/x-msvideo''
                else ''video/mp4'')
             else ''video/mp4'');
          frameRate = 30;
          hasAudio = (case mozHasAudio h of None \<Rightarrow> True | Some b \<Rightarrow> \<not> b);
          bitrate =
            (if width \<ge> 3840 then 20000000
             else if width \<ge> 1920 then 8000000
             else if width \<ge> 1280 then 5000000
             else 2500000)
      in \<lparr>vp_width = width, vp_height = height, vp_frameRate = frameRate,
          vp_bitrate = bitrate, vp_format = fmt, vp_hasAudio = hasAudio\<rparr>)"

subsection \<open>\<open>extractVideoSegment\<close>\<close>

text \<open>The recorder type \<open>extractVideoSegment\<close> chooses.\<close>

definition extract_outputFormat :: "host \<Rightarrow> VideoProperties \<Rightarrow> string" where
  "extract_outputFormat h videoProperties =
     (if includes_str (vp_format videoProperties) ''mp4''
         \<or> includes_str (vp_format videoProperties) ''m4a'' then
        (if isTypeSupported h ''video/mp4;codecs=h264,aac'' then ''video/mp4;codecs=h264,aac''
         else if isTypeSupported h ''video/mp4'' then ''video/mp4''
         else ''video/webm;codecs=vp9,opus'')
      else if includes_str (vp_format videoProperties) ''webm'' then
        (if isTypeSupported h ''video/webm;codecs=vp9,opus'' then ''video/webm;codecs=vp9,opus''
         else if isTypeSupported h ''video/webm;codecs=vp8,opus'' then ''video/webm;codecs=vp8,opus''
         else ''video/webm;codecs=vp9,opus'')
      else ''video/webm;codecs=vp9,opus'')"

text \<open>
  \<open>new Blob(chunks, { type: outputFormat.split(";")[0] })\<close>, of the chunks that
  \<open>ondataavailable\<close> kept (those of positive size).
\<close>

definition recorded_blob :: "Blob list \<Rightarrow> string \<Rightarrow> Blob" where
  "recorded_blob chunks outputFormat =
     \<lparr>blob_data = concat (map blob_data (filter (\<lambda>d. length (blob_data d) > 0) chunks)),
      blob_type = first_piece CHR '';'' outputFormat\<rparr>"

text \<open>
  How the promise that \<open>extractVideoSegment\<close> returns settles, by the host's
  events. The two indices only name the call to the host.
\<close>

definition extract_outcome :: "host \<Rightarrow> nat \<Rightarrow> nat \<Rightarrow> VideoProperties \<Rightarrow> Blob settled" where
  "extract_outcome h configIndex segIdx videoProperties =
     (let outputFormat = extract_outputFormat h videoProperties
      in case extract_event h configIndex segIdx of
           ElementError \<Rightarrow> Rejected ''Video error during segment extraction''
         | StreamNull \<Rightarrow> Rejected ''Failed to capture stream from video element''
         | Thrown message \<Rightarrow> Rejected message
         | PlayRejected \<Rightarrow> Rejected ''Failed to play video''
         | Recorded chunks \<Rightarrow> Fulfilled (recorded_blob chunks outputFormat))"

text \<open>
  \<open>extractVideoSegment\<close> as \<open>processVideos\<close> awaits it: the call, the suspension
  (during which the user may cancel), and the settled promise.
\<close>

definition extractVideoSegment ::
  "host \<Rightarrow> nat \<Rightarrow> nat \<Rightarrow> string \<Rightarrow> real \<Rightarrow> real \<Rightarrow> VideoProperties \<Rightarrow> proc_state
     \<Rightarrow> Blob settled \<times> proc_state" where
  "extractVideoSegment h configIndex segIdx videoUrl startTime endTime videoProperties st =
     (extract_outcome h configIndex segIdx videoProperties,
      while_pending (cancel_during_extract h configIndex segIdx)
        (emit [ExtractCalled configIndex segIdx startTime endTime] st))"

subsection \<open>\<open>combineVideoSegments\<close>\<close>

definition combine_outputFormat :: "host \<Rightarrow> VideoProperties \<Rightarrow> string" where
  "combine_outputFormat h videoProperties =
     (if includes_str (vp_format videoProperties) ''mp4''
         \<or> includes_str (vp_format videoProperties) ''m4a'' then
        (if isTypeSupported h ''video/mp4;codecs=h264,aac'' then ''video/mp4;codecs=h264,aac''
         else if isTypeSupported h ''video/mp4'' then ''video/mp4''
         else ''video/webm;codecs=vp9,opus'')
      else if includes_str (vp_format videoProperties) ''webm'' then
        (if isTypeSupported h ''video/webm;codecs=vp9,opus'' then ''video/webm;codecs=vp9,opus''
         else ''video/webm;codecs=vp9,opus'')
      else ''video/webm;codecs=vp9,opus'')"

text \<open>
  With no blob the function throws, with one it returns it; only with two or more
  does it set up the playback element and the recorder. The rejection of \<open>play()\<close>
  is handled after \<open>currentSegmentIndex++\<close> has run, so the message names the
  index \<open>k + 2\<close> for the segment with index \<open>k\<close>.
\<close>

definition combine_outcome :: "host \<Rightarrow> nat \<Rightarrow> VideoProperties \<Rightarrow> Blob settled" where
  "combine_outcome h configIndex videoProperties =
     (let outputFormat = combine_outputFormat h videoProperties
      in case combine_event h configIndex of
           CombineElementError \<Rightarrow> Rejected ''Video error during combination''
         | CombineNoContext \<Rightarrow> Rejected ''Could not get canvas context''
         | CombineStreamNull \<Rightarrow> Rejected ''Failed to capture stream from video element''
         | CombineThrown message \<Rightarrow> Rejected message
         | CombinePlayRejected k e \<Rightarrow>
             Rejected (''Error playing segment '' @ string_of_nat (k + 2) @ '': '' @ e)
         | CombineRecorded chunks \<Rightarrow> Fulfilled (recorded_blob chunks outputFormat))"

definition combineVideoSegments ::
  "host \<Rightarrow> nat \<Rightarrow> Blob list \<Rightarrow> VideoProperties \<Rightarrow> proc_state \<Rightarrow> Blob settled \<times> proc_state" where
  "combineVideoSegments h configIndex segmentBlobs videoProperties st =
     (if length segmentBlobs = 0 then (Rejected ''No segments to combine'', st)
      else if length segmentBlobs = 1 then (Fulfilled (segmentBlobs ! 0), st)
      else
        (combine_outcome h configIndex videoProperties,
         while_pending (cancel_during_combine h configIndex)
           (emit [Rerecording configIndex segmentBlobs] st)))"

subsection \<open>\<open>processVideos\<close>\<close>

text \<open>
  The inner loop over \<open>config.segments\<close>: the blobs so far, the counter
  \<open>processedSegments\<close> and the state go round; a rejected extraction is rethrown.
\<close>

function segment_loop ::
  "host \<Rightarrow> string \<Rightarrow> VideoProperties \<Rightarrow> nat \<Rightarrow> nat \<Rightarrow> VideoSegment list \<Rightarrow> nat \<Rightarrow> Blob list \<Rightarrow> nat
     \<Rightarrow> proc_state \<Rightarrow> Blob list settled \<times> nat \<times> proc_state" where
  "segment_loop h videoUrl videoProperties totalSegments configIndex segs segIdx segmentBlobs
       processedSegments st =
     (if segIdx < length segs then
        (let segment = segs ! segIdx
         in case extractVideoSegment h configIndex segIdx videoUrl (seg_start segment)
                   (seg_end segment) videoProperties st of
              (Rejected error, st1) \<Rightarrow> (Rejected error, processedSegments, st1)
            | (Fulfilled segmentBlob, st1) \<Rightarrow>
                (let progress = real (processedSegments + 1) / real totalSegments * 100;
                     st2 = emit [SegmentCaptured configIndex segIdx, Progress progress] st1
                 in segment_loop h videoUrl videoProperties totalSegments configIndex segs
                      (segIdx + 1) (segmentBlobs @ [segmentBlob]) (processedSegments + 1) st2))
      else (Fulfilled segmentBlobs, processedSegments, st))"
  by pat_completeness auto
termination
  by (relation "measure (\<lambda>(h, u, vp, t, ci, segs, si, bs, p, st). length segs - si)") auto

declare segment_loop.simps [simp del]

text \<open>
  The body of the outer loop for one configuration (the \<open>try\<close> block): the segments,
  then the final blob, then the output record.
\<close>

definition process_config ::
  "host \<Rightarrow> string \<Rightarrow> VideoProperties \<Rightarrow> nat \<Rightarrow> nat \<Rightarrow> config \<Rightarrow> nat \<Rightarrow> proc_state
     \<Rightarrow> OutputVideo settled \<times> nat \<times> proc_state" where
  "process_config h videoUrl videoProperties totalSegments configIndex cfg processedSegments st =
     (case segment_loop h videoUrl videoProperties totalSegments configIndex (segments cfg) 0 []
             processedSegments st of
        (Rejected error, processed1, st1) \<Rightarrow> (Rejected error, processed1, st1)
      | (Fulfilled segmentBlobs, processed1, st1) \<Rightarrow>
          (case (if length segmentBlobs = 1 then (Fulfilled (segmentBlobs ! 0), st1)
                 else
                   (case combineVideoSegments h configIndex segmentBlobs videoProperties
                           (emit [CombineCalled configIndex segmentBlobs] st1) of
                      (Rejected message, st2) \<Rightarrow>
                        (Rejected (''Failed to combine video segments: '' @ message), st2)
                    | (Fulfilled combined, st2) \<Rightarrow> (Fulfilled combined, st2))) of
             (Rejected error, st2) \<Rightarrow> (Rejected error, processed1, st2)
           | (Fulfilled finalBlob, st2) \<Rightarrow>
               (Fulfilled \<lparr>name = cfg_name cfg, url = createObjectURL h configIndex,
                            blob = finalBlob, format = Some (vp_format videoProperties)\<rparr>,
                processed1, st2)))"

text \<open>The outer loop over \<open>videoConfigs\<close>, with the check of the flag at its head.\<close>

function config_loop ::
  "host \<Rightarrow> string \<Rightarrow> VideoProperties \<Rightarrow> nat \<Rightarrow> config list \<Rightarrow> nat \<Rightarrow> OutputVideo list \<Rightarrow> nat
     \<Rightarrow> proc_state \<Rightarrow> OutputVideo list settled \<times> proc_state" where
  "config_loop h videoUrl videoProperties totalSegments videoConfigs configIndex outputs
       processedSegments st =
     (if configIndex < length videoConfigs then
        (if isCancelled st then (Rejected ''Processing cancelled'', st)
         else
           (case process_config h videoUrl videoProperties totalSegments configIndex
                   (videoConfigs ! configIndex) processedSegments st of
              (Rejected error, processed1, st1) \<Rightarrow> (Rejected error, st1)
            | (Fulfilled output, processed1, st1) \<Rightarrow>
                config_loop h videoUrl videoProperties totalSegments videoConfigs (configIndex + 1)
                  (outputs @ [output]) processed1 st1))
      else (Fulfilled outputs, st))"
  by pat_completeness auto
termination
  by (relation "measure (\<lambda>(h, u, vp, t, cfgs, ci, outs, p, st). length cfgs - ci)") auto

declare config_loop.simps [simp del]

text \<open>
  \<open>totalSegments\<close>: \<open>videoConfigs.reduce((total, config) => total + config.segments.length, 0)\<close>.
\<close>

definition total_segments :: "config list \<Rightarrow> nat" where
  "total_segments cfgs = foldl (\<lambda>total c. total + length (segments c)) 0 cfgs"

text \<open>
  \<open>processVideos\<close>: the flag is reset, the source is loaded, its properties are read,
  the segments are counted, and the loop runs. The callback \<open>onProgress\<close> appears as
  the \<open>Progress\<close> effects.
\<close>

definition processVideos ::
  "host \<Rightarrow> string \<Rightarrow> config list \<Rightarrow> proc_state \<Rightarrow> OutputVideo list settled \<times> proc_state" where
  "processVideos h videoUrl videoConfigs st =
     (let st1 = while_pending (cancel_during_load h) (st\<lparr>isCancelled := False\<rparr>)
      in if \<not> source_loads h then (Rejected ''Failed to load video'', st1)
         else
           (let videoProperties = getVideoProperties h videoUrl;
                totalSegments = total_segments videoConfigs
            in config_loop h videoUrl videoProperties totalSegments videoConfigs 0 [] 0 st1))"

subsection \<open>Views of the effects of a run\<close>

text \<open>The arguments of the calls of \<open>onProgress\<close>, in order.\<close>

fun progress_values :: "effect list \<Rightarrow> real list" where
  "progress_values [] = []"
| "progress_values (Progress v # es) = v # progress_values es"
| "progress_values (_ # es) = progress_values es"

text \<open>The segments (configuration, segment) whose blob was captured, in order.\<close>

fun captured :: "effect list \<Rightarrow> (nat \<times> nat) list" where
  "captured [] = []"
| "captured (SegmentCaptured i j # es) = (i, j) # captured es"
| "captured (_ # es) = captured es"

text \<open>The segments for which \<open>extractVideoSegment\<close> was called, in order.\<close>

fun extract_calls :: "effect list \<Rightarrow> (nat \<times> nat) list" where
  "extract_calls [] = []"
| "extract_calls (ExtractCalled i j s e # es) = (i, j) # extract_calls es"
| "extract_calls (_ # es) = extract_calls es"

text \<open>The blob lists \<open>processVideos\<close> passed to \<open>combineVideoSegments\<close> for configuration \<open>i\<close>.\<close>

fun combine_calls :: "nat \<Rightarrow> effect list \<Rightarrow> Blob list list" where
  "combine_calls i [] = []"
| "combine_calls i (CombineCalled i' bs # es) =
     (if i' = i then bs # combine_calls i es else combine_calls i es)"
| "combine_calls i (_ # es) = combine_calls i es"

text \<open>All segments of all configurations, in the order of processing.\<close>

definition all_segments :: "config list \<Rightarrow> (nat \<times> nat) list" where
  "all_segments cfgs =
     concat (map (\<lambda>i. map (Pair i) [0..<length (segments (cfgs ! i))]) [0..<length cfgs])"

text \<open>The segments of the configurations with index below \<open>k\<close>.\<close>

definition segments_before :: "config list \<Rightarrow> nat \<Rightarrow> (nat \<times> nat) list" where
  "segments_before cfgs k =
     concat (map (\<lambda>i. map (Pair i) [0..<length (segments (cfgs ! i))]) [0..<k])"

section \<open>The application: \<open>handleStartProcessing\<close>\<close>

record toast_message =
  title :: string
  description :: string
  destructive :: bool

text \<open>The React state of \<open>VideoSplitterApp\<close>, and the toasts shown so far.\<close>

record app_state =
  uploadedVideo :: "File option"
  videoUrl :: "string option"
  videoDuration :: real
  outputVideos :: "OutputVideo list"
  isProcessing :: bool
  progress :: real
  activeTab :: string
  videoConfigs :: "config list"
  toasts :: "toast_message list"

definition error_toast :: "string \<Rightarrow> app_state \<Rightarrow> app_state" where
  "error_toast d app =
     app\<lparr>toasts := toasts app @ [\<lparr>title = ''Error'', description = d, destructive = True\<rparr>]\<rparr>"

text \<open>
  The validation loops of \<open>handleStartProcessing\<close>: the description of the first
  error toast, or \<open>None\<close> when every configuration passes.
\<close>

fun validate_segments :: "real \<Rightarrow> string \<Rightarrow> VideoSegment list \<Rightarrow> string option" where
  "validate_segments duration cname [] = None"
| "validate_segments duration cname (segment # rest) =
     (if seg_start segment \<ge> seg_end segment then
        Some (''Invalid time range in '' @ [CHR 0x22] @ cname @ [CHR 0x22]
              @ '': start must be before end'')
      else if seg_end segment > duration then
        Some (''End time exceeds video duration in '' @ [CHR 0x22] @ cname @ [CHR 0x22])
      else validate_segments duration cname rest)"

fun validate_configs :: "real \<Rightarrow> config list \<Rightarrow> string option" where
  "validate_configs duration [] = None"
| "validate_configs duration (cfg # rest) =
     (if trim (cfg_name cfg) = [] then Some ''All videos must have a name''
      else if length (segments cfg) = 0 then
        Some (''Video '' @ [CHR 0x22] @ cfg_name cfg @ [CHR 0x22] @ '' has no segments'')
      else
        (case validate_segments duration (cfg_name cfg) (segments cfg) of
           Some d \<Rightarrow> Some d
         | None \<Rightarrow> validate_configs duration rest))"

text \<open>
  \<open>handleStartProcessing\<close>, from the click to the end of its \<open>finally\<close> block. The
  second component is the state of the processing module; \<open>processVideos\<close> is called
  in the last branch only. \<open>setProgress\<close> as the progress callback is overwritten by
  the \<open>setProgress(100)\<close> of the \<open>finally\<close> block.
\<close>

definition handleStartProcessing ::
  "host \<Rightarrow> app_state \<Rightarrow> proc_state \<Rightarrow> app_state \<times> proc_state" where
  "handleStartProcessing h app st =
     (if uploadedVideo app = None \<or> videoUrl app = None \<or> videoUrl app = Some [] then
        (error_toast ''Please upload a video first'' app, st)
      else
        (case validate_configs (videoDuration app) (videoConfigs app) of
           Some d \<Rightarrow> (error_toast d app, st)
         | None \<Rightarrow>
             (let app1 = app\<lparr>isProcessing := True, progress := 0, activeTab := ''results''\<rparr>
              in case processVideos h (the (videoUrl app)) (videoConfigs app) st of
                   (Fulfilled results, st1) \<Rightarrow>
                     (app1\<lparr>outputVideos := results,
                           toasts := toasts app1 @
                             [\<lparr>title = ''Success'',
                               description = ''Videos processed successfully'',
                               destructive = False\<rparr>],
                           isProcessing := False, progress := 100\<rparr>, st1)
                 | (Rejected message, st1) \<Rightarrow>
                     ((error_toast message app1)\<lparr>isProcessing := False, progress := 100\<rparr>,
                      st1))))"

section \<open>Notions used in the statements and proofs\<close>

text \<open>The state after the suspension on the extraction of segment \<open>k\<close>.\<close>

definition after_extract :: "host \<Rightarrow> nat \<Rightarrow> VideoSegment list \<Rightarrow> nat \<Rightarrow> proc_state \<Rightarrow> proc_state" where
  "after_extract h i segs k st =
     while_pending (cancel_during_extract h i k)
       (emit [ExtractCalled i k (seg_start (segs ! k)) (seg_end (segs ! k))] st)"

text \<open>
  The state after \<open>processVideos\<close> has called \<open>combineVideoSegments\<close> on two or
  more blobs and the promise has settled.
\<close>

definition after_combine :: "host \<Rightarrow> nat \<Rightarrow> Blob list \<Rightarrow> proc_state \<Rightarrow> proc_state" where
  "after_combine h i bs st =
     while_pending (cancel_during_combine h i)
       (emit [Rerecording i bs] (emit [CombineCalled i bs] st))"

text \<open>One for a rejected promise, zero for a fulfilled one.\<close>

definition failed_calls :: "'a settled \<Rightarrow> nat" where
  "failed_calls r = (case r of Rejected _ \<Rightarrow> 1 | Fulfilled _ \<Rightarrow> 0)"

definition is_fulfilled :: "'a settled \<Rightarrow> bool" where
  "is_fulfilled r = (case r of Fulfilled _ \<Rightarrow> True | Rejected _ \<Rightarrow> False)"

text \<open>
  The discipline of progress reports on a list of effects, read from left to right:
  \<open>c\<close> segments were captured before, \<open>a\<close> says that a captured segment still
  awaits its report. Every captured segment is followed at once by the report of
  \<open>c / T * 100\<close> for the count \<open>c\<close> that includes it, and there is no other report.
\<close>

fun reported :: "nat \<Rightarrow> nat \<Rightarrow> bool \<Rightarrow> effect list \<Rightarrow> bool" where
  "reported T c a [] = (\<not> a)"
| "reported T c a (SegmentCaptured i j # es) = (\<not> a \<and> reported T (Suc c) True es)"
| "reported T c a (Progress v # es) = (a \<and> v = real c / real T * 100 \<and> reported T c False es)"
| "reported T c a (_ # es) = (\<not> a \<and> reported T c a es)"

text \<open>
  The host lets configuration \<open>i\<close> succeed: every extraction is recorded, there is at
  least one segment, and with more than one segment the combination is recorded too.
\<close>

definition config_ok :: "host \<Rightarrow> VideoProperties \<Rightarrow> nat \<Rightarrow> config \<Rightarrow> bool" where
  "config_ok h vp i cfg =
     ((\<forall>j<length (segments cfg). is_fulfilled (extract_outcome h i j vp))
      \<and> segments cfg \<noteq> []
      \<and> (length (segments cfg) \<noteq> 1 \<longrightarrow> is_fulfilled (combine_outcome h i vp)))"

text \<open>
  The user cancels while configuration \<open>i\<close> is processed: during one of its
  extractions, or during its combination (which suspends only with two or more
  segments).
\<close>

definition cancel_in_config :: "host \<Rightarrow> nat \<Rightarrow> config \<Rightarrow> bool" where
  "cancel_in_config h i cfg =
     ((\<exists>j<length (segments cfg). cancel_during_extract h i j)
      \<or> (2 \<le> length (segments cfg) \<and> cancel_during_combine h i))"

text \<open>
  \<open>e\<close> is the message of a step of configuration \<open>i\<close> that fails: a rejected
  extraction, the combination of an empty list, or a rejected combination (the last
  two as \<open>processVideos\<close> rethrows them).
\<close>

definition config_failure :: "host \<Rightarrow> VideoProperties \<Rightarrow> nat \<Rightarrow> config \<Rightarrow> string \<Rightarrow> bool" where
  "config_failure h vp i cfg e =
     ((\<exists>j<length (segments cfg). extract_outcome h i j vp = Rejected e)
      \<or> (segments cfg = [] \<and> e = ''Failed to combine video segments: '' @ ''No segments to combine'')
      \<or> (2 \<le> length (segments cfg) \<and>
          (\<exists>m. combine_outcome h i vp = Rejected m \<and> e = ''Failed to combine video segments: '' @ m)))"

text \<open>
  What configuration \<open>i\<close> has produced when its output record is \<open>out\<close> and
  \<open>calls\<close> are the calls of \<open>combineVideoSegments\<close> made for it.
\<close>

definition produced ::
  "host \<Rightarrow> VideoProperties \<Rightarrow> nat \<Rightarrow> config \<Rightarrow> OutputVideo \<Rightarrow> Blob list list \<Rightarrow> bool" where
  "produced h vp i cfg out calls =
     (name out = cfg_name cfg
      \<and> (length (segments cfg) = 1 \<longrightarrow>
            extract_outcome h i 0 vp = Fulfilled (blob out) \<and> calls = [])
      \<and> (length (segments cfg) \<noteq> 1 \<longrightarrow>
            (\<exists>bs. calls = [bs] \<and> length bs = length (segments cfg) \<and> 2 \<le> length bs
               \<and> (\<forall>j<length bs. extract_outcome h i j vp = Fulfilled (bs ! j))
               \<and> combine_outcome h i vp = Fulfilled (blob out))))"

text \<open>The segments of the configurations from index \<open>k\<close> on.\<close>

definition segments_from :: "config list \<Rightarrow> nat \<Rightarrow> (nat \<times> nat) list" where
  "segments_from cfgs k =
     concat (map (\<lambda>i. map (Pair i) [0..<length (segments (cfgs ! i))]) [k..<length cfgs])"

text \<open>
  The steps of a trace: its effects without the clicks on Cancel, which belong to the
  user and not to the processing. The last step of the trace of a call is the last
  thing the call did.
\<close>

definition steps :: "effect list \<Rightarrow> effect list" where
  "steps es = filter (\<lambda>e. e \<noteq> CancelCalled) es"

text \<open>The segments of the configurations from index \<open>a\<close> up to index \<open>b\<close>, excluded.\<close>

definition segments_between :: "config list \<Rightarrow> nat \<Rightarrow> nat \<Rightarrow> (nat \<times> nat) list" where
  "segments_between cfgs a b =
     concat (map (\<lambda>i. map (Pair i) [0..<length (segments (cfgs ! i))]) [a..<b])"


section \<open>Concrete inputs\<close>

text \<open>
  A host on which everything succeeds and nobody cancels, the two configurations of
  the specification's example scenario, and an application state with a ten-second
  source loaded.
\<close>

definition example_host :: host where
  "example_host =
     \<lparr>source_loads = True, videoWidth = 1920, videoHeight = 1080, mozHasAudio = None,
      isTypeSupported = (\<lambda>t. t = ''video/mp4''),
      extract_event = (\<lambda>i j. Recorded [\<lparr>blob_data = [i, j], blob_type = []\<rparr>]),
      combine_event = (\<lambda>i. CombineRecorded [\<lparr>blob_data = [i], blob_type = []\<rparr>]),
      createObjectURL = (\<lambda>i. ''blob:'' @ string_of_nat i),
      cancel_during_load = False,
      cancel_during_extract = (\<lambda>i j. False),
      cancel_during_combine = (\<lambda>i. False)\<rparr>"

definition example_configs :: "config list" where
  "example_configs =
     [\<lparr>cfg_name = ''Clip A'', segments = [\<lparr>seg_start = 0, seg_end = 5\<rparr>]\<rparr>,
      \<lparr>cfg_name = ''Clip B'',
       segments = [\<lparr>seg_start = 0, seg_end = 3\<rparr>, \<lparr>seg_start = 6, seg_end = 9\<rparr>]\<rparr>]"

definition fresh_state :: proc_state where
  "fresh_state = \<lparr>isCancelled = False, effects = []\<rparr>"

definition example_app :: "config list \<Rightarrow> app_state" where
  "example_app cfgs =
     \<lparr>uploadedVideo = Some \<lparr>file_name = ''source.mp4'', file_type = ''video/mp4''\<rparr>,
      videoUrl = Some ''blob:source'', videoDuration = 10, outputVideos = [],
      isProcessing = False, progress = 0, activeTab = ''configure'',
      videoConfigs = cfgs, toasts = []\<rparr>"

text \<open>
  The same host with a user who cancels during the first extraction of the first
  configuration, and with a browser that refuses to play the segment of the first
  configuration.
\<close>

definition cancelling_host :: host where
  "cancelling_host = example_host\<lparr>cancel_during_extract := (\<lambda>i j. i = 0 \<and> j = 0)\<rparr>"

definition failing_host :: host where
  "failing_host =
     example_host\<lparr>extract_event :=
       (\<lambda>i j. if i = 0 \<and> j = 0 then PlayRejected
              else Recorded [\<lparr>blob_data = [i, j], blob_type = []\<rparr>])\<rparr>"

section \<open>Properties of the string helpers\<close>

lemma includes_sublist: "includes_str s sub = sublist sub s"
  by (induction s) (auto simp: sublist_Cons_right)

section \<open>Validation before processing\<close>

lemma validate_segments_None:
  "validate_segments d n segs = None \<longleftrightarrow>
     (\<forall>seg \<in> set segs. seg_start seg < seg_end seg \<and> seg_end seg \<le> d)"
  by (induction segs) auto

lemma validate_configs_None:
  "validate_configs d cfgs = None \<longleftrightarrow>
     (\<forall>cfg \<in> set cfgs. trim (cfg_name cfg) \<noteq> [] \<and> segments cfg \<noteq> [] \<and>
        (\<forall>seg \<in> set (segments cfg). seg_start seg < seg_end seg \<and> seg_end seg \<le> d))"
  by (induction cfgs) (auto simp: validate_segments_None option.case_eq_if)

lemma handleStartProcessing_rejects:
  assumes "validate_configs (videoDuration app) (videoConfigs app) \<noteq> None"
  shows "\<exists>d. handleStartProcessing h app st = (error_toast d app, st)"
  using assms by (auto simp: handleStartProcessing_def)

text \<open>
  Claim C1. If some segment of some configuration violates \<open>start < end\<close> and
  \<open>end \<le> duration\<close>, \<open>handleStartProcessing\<close> only shows an error toast: the state of
  the processing module is untouched (\<open>processVideos\<close> was not called, so nothing was
  extracted, combined or reported), the output list and the processing flag of the
  application are unchanged. Hence whenever processing does begin, every segment
  satisfies the invariant.
\<close>

theorem invalid_segment_rejected:
  assumes "cfg \<in> set (videoConfigs app)" and "seg \<in> set (segments cfg)"
    and "\<not> (seg_start seg < seg_end seg \<and> seg_end seg \<le> videoDuration app)"
  shows "snd (handleStartProcessing h app st) = st
       \<and> outputVideos (fst (handleStartProcessing h app st)) = outputVideos app
       \<and> isProcessing (fst (handleStartProcessing h app st)) = isProcessing app
       \<and> (\<exists>d. toasts (fst (handleStartProcessing h app st)) =
               toasts app @ [\<lparr>title = ''Error'', description = d, destructive = True\<rparr>])"
proof -
  have "validate_configs (videoDuration app) (videoConfigs app) \<noteq> None"
    using assms by (auto simp: validate_configs_None)
  from handleStartProcessing_rejects[OF this, of h st]
  obtain d where "handleStartProcessing h app st = (error_toast d app, st)" by blast
  then show ?thesis by (simp add: error_toast_def)
qed

theorem invalid_segment_rejected_witness:
  "snd (handleStartProcessing example_host
          (example_app [\<lparr>cfg_name = ''Clip A'', segments = [\<lparr>seg_start = 6, seg_end = 3\<rparr>]\<rparr>])
          fresh_state) = fresh_state
   \<and> outputVideos (fst (handleStartProcessing example_host
          (example_app [\<lparr>cfg_name = ''Clip A'', segments = [\<lparr>seg_start = 6, seg_end = 3\<rparr>]\<rparr>])
          fresh_state)) = []"
  using invalid_segment_rejected
    [of "\<lparr>cfg_name = ''Clip A'', segments = [\<lparr>seg_start = 6, seg_end = 3\<rparr>]\<rparr>"
        "example_app [\<lparr>cfg_name = ''Clip A'', segments = [\<lparr>seg_start = 6, seg_end = 3\<rparr>]\<rparr>]"
        "\<lparr>seg_start = 6, seg_end = 3\<rparr>" example_host fresh_state]
  by (simp add: example_app_def)

text \<open>
  Claim C10. A configuration whose name is empty or only white space, or whose segment
  list is empty, is rejected in the same way: an error toast, and no call of
  \<open>processVideos\<close>.
\<close>

theorem unnamed_or_empty_rejected:
  assumes "cfg \<in> set (videoConfigs app)"
    and "trim (cfg_name cfg) = [] \<or> segments cfg = []"
  shows "snd (handleStartProcessing h app st) = st
       \<and> outputVideos (fst (handleStartProcessing h app st)) = outputVideos app
       \<and> isProcessing (fst (handleStartProcessing h app st)) = isProcessing app
       \<and> (\<exists>d. toasts (fst (handleStartProcessing h app st)) =
               toasts app @ [\<lparr>title = ''Error'', description = d, destructive = True\<rparr>])"
proof -
  have "validate_configs (videoDuration app) (videoConfigs app) \<noteq> None"
    using assms by (auto simp: validate_configs_None)
  from handleStartProcessing_rejects[OF this, of h st]
  obtain d where "handleStartProcessing h app st = (error_toast d app, st)" by blast
  then show ?thesis by (simp add: error_toast_def)
qed

theorem unnamed_or_empty_rejected_witness:
  "trim ''  '' = []
   \<and> snd (handleStartProcessing example_host
          (example_app [\<lparr>cfg_name = ''  '', segments = [\<lparr>seg_start = 0, seg_end = 5\<rparr>]\<rparr>])
          fresh_state) = fresh_state
   \<and> snd (handleStartProcessing example_host
          (example_app [\<lparr>cfg_name = ''Clip A'', segments = []\<rparr>]) fresh_state) = fresh_state"
  using unnamed_or_empty_rejected
    [of "\<lparr>cfg_name = ''  '', segments = [\<lparr>seg_start = 0, seg_end = 5\<rparr>]\<rparr>"
        "example_app [\<lparr>cfg_name = ''  '', segments = [\<lparr>seg_start = 0, seg_end = 5\<rparr>]\<rparr>]"
        example_host fresh_state]
    unnamed_or_empty_rejected
    [of "\<lparr>cfg_name = ''Clip A'', segments = []\<rparr>"
        "example_app [\<lparr>cfg_name = ''Clip A'', segments = []\<rparr>]"
        example_host fresh_state]
  by (simp add: example_app_def trim_def is_whitespace_def)

section \<open>The download name\<close>

text \<open>
  Claim C8. The download name is the configured name, a dot and an extension. With a
  non-empty \<open>format\<close> the extension is read off the format alone (\<open>webm\<close>, \<open>ogg\<close>,
  \<open>mov\<close> for quicktime, \<open>m4a\<close>); without one (missing, or empty, which the
  source's test treats alike) it is read off the blob's type (\<open>webm\<close>, \<open>ogg\<close>,
  \<open>mov\<close>); whenever nothing is recognised it is \<open>mp4\<close>.
\<close>

theorem handleDownload_file_name:
  fixes video :: OutputVideo
  defines "t \<equiv> blob_type (blob video)"
  shows "(\<forall>f. format video = Some f \<and> f \<noteq> [] \<longrightarrow>
            handleDownload video = name video @ ''.'' @
              (if sublist ''webm'' f then ''webm''
               else if sublist ''ogg'' f then ''ogg''
               else if sublist ''quicktime'' f then ''mov''
               else if sublist ''m4a'' f then ''m4a''
               else ''mp4''))
       \<and> (format video = None \<or> format video = Some [] \<longrightarrow>
            handleDownload video = name video @ ''.'' @
              (if sublist ''webm'' t then ''webm''
               else if sublist ''ogg'' t then ''ogg''
               else if sublist ''quicktime'' t then ''mov''
               else ''mp4''))"
  unfolding t_def
  by (cases "format video") (auto simp: handleDownload_def Let_def includes_sublist)

theorem handleDownload_file_name_witness:
  "handleDownload \<lparr>name = ''Clip A'', url = ''blob:1'',
                    blob = \<lparr>blob_data = [], blob_type = ''video/mp4''\<rparr>,
                    format = Some ''video/webm''\<rparr> = ''Clip A.webm''
   \<and> handleDownload \<lparr>name = ''Clip B'', url = ''blob:2'',
                    blob = \<lparr>blob_data = [], blob_type = ''video/ogg''\<rparr>,
                    format = None\<rparr> = ''Clip B.ogg''
   \<and> handleDownload \<lparr>name = ''Clip C'', url = ''blob:3'',
                    blob = \<lparr>blob_data = [], blob_type = ''video/x-msvideo''\<rparr>,
                    format = None\<rparr> = ''Clip C.mp4''"
  using handleDownload_file_name
    [of "\<lparr>name = ''Clip A'', url = ''blob:1'',
          blob = \<lparr>blob_data = [], blob_type = ''video/mp4''\<rparr>, format = Some ''video/webm''\<rparr>"]
    handleDownload_file_name
    [of "\<lparr>name = ''Clip B'', url = ''blob:2'',
          blob = \<lparr>blob_data = [], blob_type = ''video/ogg''\<rparr>, format = None\<rparr>"]
    handleDownload_file_name
    [of "\<lparr>name = ''Clip C'', url = ''blob:3'',
          blob = \<lparr>blob_data = [], blob_type = ''video/x-msvideo''\<rparr>, format = None\<rparr>"]
  by (simp add: includes_sublist[symmetric])

section \<open>The upload surface\<close>

text \<open>
  Claim C7. The claim holds for a dropped file, and fails for a file from the picker:
  \<open>handleFileChange\<close> passes a file of type \<open>text/plain\<close> to \<open>onVideoUpload\<close>,
  where \<open>handleDrop\<close> rejects the same file.
\<close>

theorem handleFileChange_unfiltered:
  "handleFileChange (Some [\<lparr>file_name = ''notes.txt'', file_type = ''text/plain''\<rparr>])
     = Some \<lparr>file_name = ''notes.txt'', file_type = ''text/plain''\<rparr>
   \<and> startsWith ''text/plain'' ''video/'' = False
   \<and> handleDrop (Some [\<lparr>file_name = ''notes.txt'', file_type = ''text/plain''\<rparr>]) = None"
  by (simp add: handleFileChange_def handleDrop_def startsWith_def)

lemma handleDrop_iff:
  "(\<exists>f. handleDrop (Some (file # rest)) = Some f) \<longleftrightarrow> startsWith (file_type file) ''video/''"
  by (simp add: handleDrop_def)

section \<open>Combination of no blob or one blob\<close>

text \<open>
  Claim C9. \<open>combineVideoSegments\<close> on the empty list fails with the message
  \<open>No segments to combine\<close>; on a one-element list it returns that blob, whatever the
  host would do, and leaves the state as it was: no playback element is set up and
  nothing is re-recorded.
\<close>

theorem combine_empty_and_single:
  "combineVideoSegments h i [] props st = (Rejected ''No segments to combine'', st)
   \<and> combineVideoSegments h i [b] props st = (Fulfilled b, st)"
  by (simp add: combineVideoSegments_def)

section \<open>The state and the views\<close>

lemma effects_emit [simp]: "effects (emit es st) = effects st @ es"
  and isCancelled_emit [simp]: "isCancelled (emit es st) = isCancelled st"
  by (simp_all add: emit_def)

lemma effects_while_pending [simp]:
  "effects (while_pending c st) = effects st @ (if c then [CancelCalled] else [])"
  and isCancelled_while_pending [simp]:
  "isCancelled (while_pending c st) = (isCancelled st \<or> c)"
  by (simp_all add: while_pending_def cancelProcessing_def)

lemma effects_after_extract [simp]:
  "effects (after_extract h i segs k st) =
     effects st @ ExtractCalled i k (seg_start (segs ! k)) (seg_end (segs ! k))
       # (if cancel_during_extract h i k then [CancelCalled] else [])"
  and isCancelled_after_extract [simp]:
  "isCancelled (after_extract h i segs k st) = (isCancelled st \<or> cancel_during_extract h i k)"
  by (simp_all add: after_extract_def)

lemma effects_after_combine [simp]:
  "effects (after_combine h i bs st) =
     effects st @ CombineCalled i bs # Rerecording i bs
       # (if cancel_during_combine h i then [CancelCalled] else [])"
  and isCancelled_after_combine [simp]:
  "isCancelled (after_combine h i bs st) = (isCancelled st \<or> cancel_during_combine h i)"
  by (simp_all add: after_combine_def)

lemma failed_calls_simps [simp]:
  "failed_calls (Rejected e) = 1" "failed_calls (Fulfilled x) = 0"
  by (simp_all add: failed_calls_def)

lemma is_fulfilled_simps [simp]:
  "is_fulfilled (Fulfilled x) = True" "is_fulfilled (Rejected e) = False"
  by (simp_all add: is_fulfilled_def)

lemma progress_values_append [simp]:
  "progress_values (xs @ ys) = progress_values xs @ progress_values ys"
  by (induction xs rule: progress_values.induct) simp_all

lemma captured_append [simp]: "captured (xs @ ys) = captured xs @ captured ys"
  by (induction xs rule: captured.induct) simp_all

lemma extract_calls_append [simp]: "extract_calls (xs @ ys) = extract_calls xs @ extract_calls ys"
  by (induction xs rule: extract_calls.induct) simp_all

lemma combine_calls_append [simp]:
  "combine_calls i (xs @ ys) = combine_calls i xs @ combine_calls i ys"
  by (induction i xs rule: combine_calls.induct) simp_all

section \<open>The discipline of progress reports\<close>

lemma reported_append:
  "reported T c a xs \<Longrightarrow> reported T (c + length (captured xs)) False ys
     \<Longrightarrow> reported T c a (xs @ ys)"
proof (induction xs arbitrary: c a)
  case Nil
  then show ?case by simp
next
  case (Cons x xs)
  then show ?case by (cases x) auto
qed

lemma reported_progress:
  "reported T c a (pre @ Progress v # post) \<Longrightarrow>
     v = real (c + length (captured pre)) / real T * 100
     \<and> ((pre = [] \<and> a) \<or> (\<exists>pre' i j. pre = pre' @ [SegmentCaptured i j]))"
proof (induction pre arbitrary: c a)
  case Nil
  then show ?case by simp
next
  case (Cons x pre)
  show ?case
  proof (cases x)
    case (SegmentCaptured i j)
    with Cons.prems have "reported T (Suc c) True (pre @ Progress v # post)" by simp
    from Cons.IH[OF this] show ?thesis using SegmentCaptured
      by (auto intro: exI[of _ "[]"] exI[of _ "x # _"])
  next
    case (Progress w)
    with Cons.prems have "reported T c False (pre @ Progress v # post)" by simp
    from Cons.IH[OF this] show ?thesis using Progress
      by (auto intro: exI[of _ "x # _"])
  next
    case (ExtractCalled i j s e)
    with Cons.prems have "reported T c False (pre @ Progress v # post)" by auto
    from Cons.IH[OF this] show ?thesis using ExtractCalled
      by (auto intro: exI[of _ "x # _"])
  next
    case (CombineCalled i bs)
    with Cons.prems have "reported T c False (pre @ Progress v # post)" by auto
    from Cons.IH[OF this] show ?thesis using CombineCalled
      by (auto intro: exI[of _ "x # _"])
  next
    case (Rerecording i bs)
    with Cons.prems have "reported T c False (pre @ Progress v # post)" by auto
    from Cons.IH[OF this] show ?thesis using Rerecording
      by (auto intro: exI[of _ "x # _"])
  next
    case CancelCalled
    with Cons.prems have "reported T c False (pre @ Progress v # post)" by auto
    from Cons.IH[OF this] show ?thesis using CancelCalled
      by (auto intro: exI[of _ "x # _"])
  qed
qed

lemma reported_captured:
  "reported T c a (pre @ SegmentCaptured i j # post) \<Longrightarrow> \<exists>v post'. post = Progress v # post'"
proof (induction pre arbitrary: c a)
  case Nil
  then have "reported T (Suc c) True post" by simp
  then show ?case by (cases post rule: progress_values.cases) auto
next
  case (Cons x pre)
  then show ?case by (cases x) auto
qed

lemma reported_values:
  "reported T c a es \<Longrightarrow>
     progress_values es =
       map (\<lambda>q. real q / real T * 100)
         [(if a then c else Suc c)..<Suc (c + length (captured es))]"
proof (induction es arbitrary: c a)
  case Nil
  then show ?case by simp
next
  case (Cons x es)
  show ?case
  proof (cases x)
    case (Progress w)
    with Cons.prems have a: "a" and w: "w = real c / real T * 100"
      and r: "reported T c False es" by auto
    have "[c..<Suc (c + length (captured es))] = c # [Suc c..<Suc (c + length (captured es))]"
      by (rule upt_conv_Cons) simp
    with Cons.IH[OF r] show ?thesis using Progress a w
      by (simp del: upt_Suc)
  next
    case (SegmentCaptured i j)
    with Cons.prems have a: "\<not> a" and r: "reported T (Suc c) True es" by auto
    from Cons.IH[OF r] show ?thesis using SegmentCaptured a by (simp del: upt_Suc)
  qed (use Cons in \<open>auto simp del: upt_Suc\<close>)
qed

section \<open>The loop over the segments\<close>

text \<open>
  One unfolding of the loop for each way an iteration can go, and the induction rule
  that follows a run of the loop.
\<close>

lemma segment_loop_done:
  "\<not> k < length segs \<Longrightarrow> segment_loop h u vp T i segs k bs p st = (Fulfilled bs, p, st)"
  by (subst segment_loop.simps) simp

lemma segment_loop_rejected:
  "k < length segs \<Longrightarrow> extract_outcome h i k vp = Rejected e \<Longrightarrow>
   segment_loop h u vp T i segs k bs p st = (Rejected e, p, after_extract h i segs k st)"
  by (subst segment_loop.simps) (simp add: extractVideoSegment_def after_extract_def Let_def)

lemma segment_loop_step:
  "k < length segs \<Longrightarrow> extract_outcome h i k vp = Fulfilled b \<Longrightarrow>
   segment_loop h u vp T i segs k bs p st =
     segment_loop h u vp T i segs (Suc k) (bs @ [b]) (Suc p)
       (emit [SegmentCaptured i k, Progress (real (Suc p) / real T * 100)]
          (after_extract h i segs k st))"
  by (subst segment_loop.simps) (simp add: extractVideoSegment_def after_extract_def Let_def)

lemma segment_loop_induct [consumes 1, case_names finished rejected step]:
  assumes run: "segment_loop h u vp T i segs k bs p st = (r, p', st')"
    and finished: "\<And>k bs p st. \<not> k < length segs \<Longrightarrow> P k bs p st (Fulfilled bs) p st"
    and rejected: "\<And>k bs p st e. k < length segs \<Longrightarrow> extract_outcome h i k vp = Rejected e \<Longrightarrow>
        P k bs p st (Rejected e) p (after_extract h i segs k st)"
    and step: "\<And>k bs p st b r p' st'. k < length segs \<Longrightarrow>
        extract_outcome h i k vp = Fulfilled b \<Longrightarrow>
        segment_loop h u vp T i segs (Suc k) (bs @ [b]) (Suc p)
          (emit [SegmentCaptured i k, Progress (real (Suc p) / real T * 100)]
             (after_extract h i segs k st)) = (r, p', st') \<Longrightarrow>
        P (Suc k) (bs @ [b]) (Suc p)
          (emit [SegmentCaptured i k, Progress (real (Suc p) / real T * 100)]
             (after_extract h i segs k st)) r p' st' \<Longrightarrow>
        P k bs p st r p' st'"
  shows "P k bs p st r p' st'"
  using run
proof (induction "length segs - k" arbitrary: k bs p st)
  case 0
  then show ?case using finished[of k bs p st] by (simp add: segment_loop_done)
next
  case (Suc n)
  then have k: "k < length segs" by simp
  show ?case
  proof (cases "extract_outcome h i k vp")
    case (Rejected e)
    with Suc.prems k rejected[of k e bs p st] show ?thesis
      by (simp add: segment_loop_rejected)
  next
    case (Fulfilled b)
    have "n = length segs - Suc k" using Suc.hyps(2) by simp
    from Suc.hyps(1)[OF this] Suc.prems k Fulfilled step[OF k Fulfilled] show ?thesis
      by (simp add: segment_loop_step)
  qed
qed

lemma segment_loop_count:
  assumes "segment_loop h u vp T i segs k bs p st = (r, p', st')"
  shows "p \<le> p' \<and> k + (p' - p) + failed_calls r \<le> max k (length segs)
       \<and> (\<forall>bs'. r = Fulfilled bs' \<longrightarrow> k + (p' - p) = max k (length segs))"
  using assms by (induction rule: segment_loop_induct) auto

lemma segment_loop_outcomes:
  assumes "segment_loop h u vp T i segs k bs p st = (r, p', st')"
  shows "(\<forall>j. k \<le> j \<and> j < k + (p' - p) \<longrightarrow> (\<exists>b. extract_outcome h i j vp = Fulfilled b))
       \<and> (\<forall>e. r = Rejected e \<longrightarrow> extract_outcome h i (k + (p' - p)) vp = Rejected e)"
  using assms
proof (induction rule: segment_loop_induct)
  case (finished k bs p st)
  then show ?case by auto
next
  case (rejected k bs p st e)
  then show ?case by auto
next
  case (step k bs p st b r p' st')
  from segment_loop_count[OF step(3)] have le: "Suc p \<le> p'" by simp
  have "extract_outcome h i j vp = Fulfilled b'" if "k = j" "extract_outcome h i k vp = Fulfilled b'" for j b'
    using that by simp
  show ?case
  proof (intro conjI allI impI)
    fix j assume j: "k \<le> j \<and> j < k + (p' - p)"
    show "\<exists>b. extract_outcome h i j vp = Fulfilled b"
    proof (cases "j = k")
      case True
      then show ?thesis using step(2) by blast
    next
      case False
      with j le have "Suc k \<le> j \<and> j < Suc k + (p' - Suc p)" by auto
      with step.IH show ?thesis by blast
    qed
  next
    fix e assume "r = Rejected e"
    moreover have "k + (p' - p) = Suc k + (p' - Suc p)" using le by simp
    ultimately show "extract_outcome h i (k + (p' - p)) vp = Rejected e"
      using step.IH by simp
  qed
qed

lemma segment_loop_blobs:
  assumes "segment_loop h u vp T i segs k bs p st = (r, p', st')"
  shows "\<forall>bs'. r = Fulfilled bs' \<longrightarrow>
         length bs' = length bs + (length segs - k)
       \<and> (\<forall>j<length bs. bs' ! j = bs ! j)
       \<and> (\<forall>j. k \<le> j \<and> j < length segs \<longrightarrow>
             extract_outcome h i j vp = Fulfilled (bs' ! (length bs + (j - k))))"
  using assms
proof (induction rule: segment_loop_induct)
  case (finished k bs p st)
  then show ?case by auto
next
  case (rejected k bs p st e)
  then show ?case by simp
next
  case (step k bs p st b r p' st')
  show ?case
  proof (intro conjI allI impI)
    fix bs' assume "r = Fulfilled bs'"
    then show "length bs' = length bs + (length segs - k)" using step by auto
  next
    fix bs' j assume "r = Fulfilled bs'" "j < length bs"
    then show "bs' ! j = bs ! j" using step.IH by (auto simp: nth_append)
  next
    fix bs' j assume r: "r = Fulfilled bs'" and j: "k \<le> j \<and> j < length segs"
    show "extract_outcome h i j vp = Fulfilled (bs' ! (length bs + (j - k)))"
    proof (cases "j = k")
      case True
      have "bs' ! length bs = (bs @ [b]) ! length bs" using step.IH r by simp
      then show ?thesis using True step.hyps(2) by simp
    next
      case False
      with j have "Suc k \<le> j \<and> j < length segs" by auto
      moreover have "length (bs @ [b]) + (j - Suc k) = length bs + (j - k)" using j False by auto
      ultimately show ?thesis using step.IH r by metis
    qed
  qed
qed

lemma segment_loop_effects:
  assumes "segment_loop h u vp T i segs k bs p st = (r, p', st')"
  shows "\<exists>new. effects st' = effects st @ new
      \<and> reported T p False new
      \<and> captured new = map (Pair i) [k..<k + (p' - p)]
      \<and> extract_calls new = map (Pair i) [k..<k + (p' - p) + failed_calls r]
      \<and> (\<forall>c. combine_calls c new = [])
      \<and> isCancelled st' = (isCancelled st \<or> CancelCalled \<in> set new)
      \<and> (CancelCalled \<in> set new \<longleftrightarrow>
           (\<exists>j. k \<le> j \<and> j < k + (p' - p) + failed_calls r \<and> cancel_during_extract h i j))"
  using assms
proof (induction rule: segment_loop_induct)
  case (finished k bs p st)
  then show ?case by simp
next
  case (rejected k bs p st e)
  show ?case
    by (rule exI[of _ "ExtractCalled i k (seg_start (segs ! k)) (seg_end (segs ! k))
           # (if cancel_during_extract h i k then [CancelCalled] else [])"])
       (auto simp: less_Suc_eq_le dest: le_antisym)
next
  case (step k bs p st b r p' st')
  from segment_loop_count[OF step(3)] have le: "Suc p \<le> p'" by simp
  then have d: "p' - p = Suc (p' - Suc p)" by simp
  from step.IH obtain new where new:
    "effects st' = effects st @ ExtractCalled i k (seg_start (segs ! k)) (seg_end (segs ! k))
       # (if cancel_during_extract h i k then [CancelCalled] else [])
       @ [SegmentCaptured i k, Progress (real (Suc p) / real T * 100)] @ new"
    "reported T (Suc p) False new"
    "captured new = map (Pair i) [Suc k..<Suc k + (p' - Suc p)]"
    "extract_calls new = map (Pair i) [Suc k..<Suc k + (p' - Suc p) + failed_calls r]"
    "\<forall>c. combine_calls c new = []"
    "isCancelled st' = ((isCancelled st \<or> cancel_during_extract h i k) \<or> CancelCalled \<in> set new)"
    "CancelCalled \<in> set new \<longleftrightarrow>
       (\<exists>j. Suc k \<le> j \<and> j < Suc k + (p' - Suc p) + failed_calls r \<and> cancel_during_extract h i j)"
    by auto
  let ?c = "if cancel_during_extract h i k then [CancelCalled] else []"
  let ?new = "ExtractCalled i k (seg_start (segs ! k)) (seg_end (segs ! k))
       # ?c @ [SegmentCaptured i k, Progress (real (Suc p) / real T * 100)] @ new"
  have 1: "effects st' = effects st @ ?new" using new(1) by simp
  have 2: "reported T p False ?new" using new(2) by simp
  have 3: "captured ?new = map (Pair i) [k..<k + (p' - p)]"
    using new(3) d by (simp add: upt_conv_Cons del: upt_Suc)
  have 4: "extract_calls ?new = map (Pair i) [k..<k + (p' - p) + failed_calls r]"
    using new(4) d by (simp add: upt_conv_Cons del: upt_Suc)
  have 5: "\<forall>c. combine_calls c ?new = []" using new(5) by simp
  have 7: "CancelCalled \<in> set ?new \<longleftrightarrow>
           (\<exists>j. k \<le> j \<and> j < k + (p' - p) + failed_calls r \<and> cancel_during_extract h i j)"
  proof -
    have "(\<exists>j. k \<le> j \<and> j < k + (p' - p) + failed_calls r \<and> cancel_during_extract h i j)
        \<longleftrightarrow> cancel_during_extract h i k \<or>
            (\<exists>j. Suc k \<le> j \<and> j < Suc k + (p' - Suc p) + failed_calls r \<and> cancel_during_extract h i j)"
      (is "?L \<longleftrightarrow> ?R")
    proof
      assume ?L
      then obtain j where j: "k \<le> j" "j < k + (p' - p) + failed_calls r" "cancel_during_extract h i j"
        by blast
      show ?R
      proof (cases "j = k")
        case True
        with j show ?thesis by simp
      next
        case False
        with j d have "Suc k \<le> j \<and> j < Suc k + (p' - Suc p) + failed_calls r" by simp
        with j(3) show ?thesis by blast
      qed
    next
      assume ?R
      then show ?L
      proof
        assume "cancel_during_extract h i k"
        moreover have "k < k + (p' - p) + failed_calls r" using d by simp
        ultimately show ?L by blast
      next
        assume "\<exists>j. Suc k \<le> j \<and> j < Suc k + (p' - Suc p) + failed_calls r \<and> cancel_during_extract h i j"
        then obtain j where "Suc k \<le> j" "j < Suc k + (p' - Suc p) + failed_calls r"
          "cancel_during_extract h i j" by blast
        then have "k \<le> j \<and> j < k + (p' - p) + failed_calls r \<and> cancel_during_extract h i j"
          using d by simp
        then show ?L by blast
      qed
    qed
    then show ?thesis using new(7) by auto
  qed
  have 6: "isCancelled st' = (isCancelled st \<or> CancelCalled \<in> set ?new)"
    using new(6) by auto
  show ?case using 1 2 3 4 5 6 7 by blast
qed

lemma segment_loop_all:
  assumes sl: "segment_loop h u vp T i segs 0 [] p st = (Fulfilled bs, p', st1)"
  shows "length bs = length segs" "p' = p + length segs"
    "\<forall>j<length segs. extract_outcome h i j vp = Fulfilled (bs ! j)"
    "extract_calls (effects st1) = extract_calls (effects st) @ map (Pair i) [0..<length segs]"
    "combine_calls c (effects st1) = combine_calls c (effects st)"
    "isCancelled st1 = (isCancelled st \<or> (\<exists>j<length segs. cancel_during_extract h i j))"
proof -
  from segment_loop_blobs[OF sl] show "length bs = length segs"
    "\<forall>j<length segs. extract_outcome h i j vp = Fulfilled (bs ! j)" by simp_all
  from segment_loop_count[OF sl] have d: "p' - p = length segs" "p \<le> p'" by simp_all
  then show "p' = p + length segs" by simp
  from segment_loop_effects[OF sl] d obtain new where new: "effects st1 = effects st @ new"
    "extract_calls new = map (Pair i) [0..<length segs]" "\<forall>c. combine_calls c new = []"
    "isCancelled st1 = (isCancelled st \<or> CancelCalled \<in> set new)"
    "CancelCalled \<in> set new \<longleftrightarrow> (\<exists>j<length segs. cancel_during_extract h i j)"
    by auto
  show "extract_calls (effects st1) = extract_calls (effects st) @ map (Pair i) [0..<length segs]"
    using new(1,2) by simp
  show "combine_calls c (effects st1) = combine_calls c (effects st)" using new(1,3) by simp
  show "isCancelled st1 = (isCancelled st \<or> (\<exists>j<length segs. cancel_during_extract h i j))"
    using new(4,5) by simp
qed

lemma segment_loop_captured:
  assumes sl: "segment_loop h u vp T i segs 0 [] p st = (Fulfilled bs, p', st1)"
  shows "captured (effects st1) = captured (effects st) @ map (Pair i) [0..<length segs]"
proof -
  from segment_loop_count[OF sl] have d: "p' - p = length segs" by simp
  from segment_loop_effects[OF sl] d show ?thesis by auto
qed

section \<open>One configuration\<close>

lemma process_config_segments_rejected:
  "segment_loop h u vp T i (segments cfg) 0 [] p st = (Rejected e, p1, st1) \<Longrightarrow>
   process_config h u vp T i cfg p st = (Rejected e, p1, st1)"
  by (simp add: process_config_def)

lemma process_config_single:
  "segment_loop h u vp T i (segments cfg) 0 [] p st = (Fulfilled bs, p1, st1) \<Longrightarrow>
   length bs = 1 \<Longrightarrow>
   process_config h u vp T i cfg p st =
     (Fulfilled \<lparr>name = cfg_name cfg, url = createObjectURL h i, blob = bs ! 0,
                 format = Some (vp_format vp)\<rparr>, p1, st1)"
  by (simp add: process_config_def)

lemma process_config_none:
  "segment_loop h u vp T i (segments cfg) 0 [] p st = (Fulfilled bs, p1, st1) \<Longrightarrow>
   length bs = 0 \<Longrightarrow>
   process_config h u vp T i cfg p st =
     (Rejected (''Failed to combine video segments: '' @ ''No segments to combine''), p1,
      emit [CombineCalled i bs] st1)"
  by (simp add: process_config_def combineVideoSegments_def)

lemma process_config_many_rejected:
  "segment_loop h u vp T i (segments cfg) 0 [] p st = (Fulfilled bs, p1, st1) \<Longrightarrow>
   2 \<le> length bs \<Longrightarrow> combine_outcome h i vp = Rejected m \<Longrightarrow>
   process_config h u vp T i cfg p st =
     (Rejected (''Failed to combine video segments: '' @ m), p1, after_combine h i bs st1)"
  by (auto simp: process_config_def combineVideoSegments_def after_combine_def)

lemma process_config_many:
  "segment_loop h u vp T i (segments cfg) 0 [] p st = (Fulfilled bs, p1, st1) \<Longrightarrow>
   2 \<le> length bs \<Longrightarrow> combine_outcome h i vp = Fulfilled b \<Longrightarrow>
   process_config h u vp T i cfg p st =
     (Fulfilled \<lparr>name = cfg_name cfg, url = createObjectURL h i, blob = b,
                 format = Some (vp_format vp)\<rparr>, p1, after_combine h i bs st1)"
  by (auto simp: process_config_def combineVideoSegments_def after_combine_def)

lemma process_config_cases [consumes 1, case_names segments_rejected none single many_rejected many]:
  assumes run: "process_config h u vp T i cfg p st = (r, p', st')"
    and "\<And>e. segment_loop h u vp T i (segments cfg) 0 [] p st = (Rejected e, p', st') \<Longrightarrow>
           r = Rejected e \<Longrightarrow> Q"
    and "\<And>st1. segment_loop h u vp T i (segments cfg) 0 [] p st = (Fulfilled [], p', st1) \<Longrightarrow>
           segments cfg = [] \<Longrightarrow>
           r = Rejected (''Failed to combine video segments: '' @ ''No segments to combine'') \<Longrightarrow>
           st' = emit [CombineCalled i []] st1 \<Longrightarrow> Q"
    and "\<And>bs. segment_loop h u vp T i (segments cfg) 0 [] p st = (Fulfilled bs, p', st') \<Longrightarrow>
           length bs = 1 \<Longrightarrow> length (segments cfg) = 1 \<Longrightarrow>
           r = Fulfilled \<lparr>name = cfg_name cfg, url = createObjectURL h i, blob = bs ! 0,
                 format = Some (vp_format vp)\<rparr> \<Longrightarrow> Q"
    and "\<And>bs st1 m. segment_loop h u vp T i (segments cfg) 0 [] p st = (Fulfilled bs, p', st1) \<Longrightarrow>
           2 \<le> length bs \<Longrightarrow> length bs = length (segments cfg) \<Longrightarrow>
           combine_outcome h i vp = Rejected m \<Longrightarrow>
           r = Rejected (''Failed to combine video segments: '' @ m) \<Longrightarrow>
           st' = after_combine h i bs st1 \<Longrightarrow> Q"
    and "\<And>bs st1 b. segment_loop h u vp T i (segments cfg) 0 [] p st = (Fulfilled bs, p', st1) \<Longrightarrow>
           2 \<le> length bs \<Longrightarrow> length bs = length (segments cfg) \<Longrightarrow>
           combine_outcome h i vp = Fulfilled b \<Longrightarrow>
           r = Fulfilled \<lparr>name = cfg_name cfg, url = createObjectURL h i, blob = b,
                 format = Some (vp_format vp)\<rparr> \<Longrightarrow>
           st' = after_combine h i bs st1 \<Longrightarrow> Q"
  shows Q
proof -
  obtain r1 p1 st1 where sl: "segment_loop h u vp T i (segments cfg) 0 [] p st = (r1, p1, st1)"
    by (cases "segment_loop h u vp T i (segments cfg) 0 [] p st") auto
  show Q
  proof (cases r1)
    case (Rejected e)
    with sl run assms(2)[of e] show Q by (simp add: process_config_segments_rejected)
  next
    case (Fulfilled bs)
    from segment_loop_blobs[OF sl] Fulfilled have len: "length bs = length (segments cfg)" by simp
    consider "length bs = 0" | "length bs = 1" | "2 \<le> length bs" by linarith
    then show Q
    proof cases
      case 1
      then have bs: "bs = []" by simp
      with len have segs: "segments cfg = []" by simp
      have sl': "segment_loop h u vp T i (segments cfg) 0 [] p st = (Fulfilled [], p1, st1)"
        using sl Fulfilled bs by simp
      from process_config_none[OF sl'] run
      have "r = Rejected (''Failed to combine video segments: '' @ ''No segments to combine'')"
        "p' = p1" "st' = emit [CombineCalled i []] st1" by simp_all
      with sl' segs assms(3)[of st1] show Q by blast
    next
      case 2
      have sl': "segment_loop h u vp T i (segments cfg) 0 [] p st = (Fulfilled bs, p1, st1)"
        using sl Fulfilled by simp
      from process_config_single[OF sl' 2] run
      have "r = Fulfilled \<lparr>name = cfg_name cfg, url = createObjectURL h i, blob = bs ! 0,
                 format = Some (vp_format vp)\<rparr>" "p' = p1" "st' = st1" by simp_all
      moreover have "length (segments cfg) = 1" using len 2 by simp
      ultimately show Q using sl' 2 assms(4)[of bs] by blast
    next
      case 3
      have sl': "segment_loop h u vp T i (segments cfg) 0 [] p st = (Fulfilled bs, p1, st1)"
        using sl Fulfilled by simp
      show Q
      proof (cases "combine_outcome h i vp")
        case (Rejected m)
        from process_config_many_rejected[OF sl' 3 Rejected] run
        have "r = Rejected (''Failed to combine video segments: '' @ m)" "p' = p1"
          "st' = after_combine h i bs st1" by simp_all
        with sl' 3 len Rejected assms(5)[of bs st1 m] show Q by blast
      next
        case (Fulfilled b)
        from process_config_many[OF sl' 3 Fulfilled] run
        have "r = Fulfilled \<lparr>name = cfg_name cfg, url = createObjectURL h i, blob = b,
                 format = Some (vp_format vp)\<rparr>" "p' = p1"
          "st' = after_combine h i bs st1" by simp_all
        with sl' 3 len Fulfilled assms(6)[of bs st1 b] show Q by blast
      qed
    qed
  qed
qed

lemma process_config_trace:
  assumes "process_config h u vp T i cfg p st = (r, p', st')"
  shows "\<exists>new. effects st' = effects st @ new
      \<and> reported T p False new
      \<and> p \<le> p' \<and> p' - p \<le> length (segments cfg)
      \<and> (is_fulfilled r \<longrightarrow> p' - p = length (segments cfg))
      \<and> captured new = map (Pair i) [0..<p' - p]
      \<and> isCancelled st' = (isCancelled st \<or> CancelCalled \<in> set new)"
proof -
  have seg: "\<exists>new. effects st1 = effects st @ new
      \<and> reported T p False new
      \<and> p \<le> p' \<and> p' - p \<le> length (segments cfg)
      \<and> (is_fulfilled r1 \<longrightarrow> p' - p = length (segments cfg))
      \<and> captured new = map (Pair i) [0..<p' - p]
      \<and> isCancelled st1 = (isCancelled st \<or> CancelCalled \<in> set new)"
    if "segment_loop h u vp T i (segments cfg) 0 [] p st = (r1, p', st1)" for r1 st1
    using segment_loop_effects[OF that] segment_loop_count[OF that]
    by (cases r1) auto
  have ext: "\<exists>new. effects st2 = effects st @ new
      \<and> reported T p False new
      \<and> p \<le> p' \<and> p' - p \<le> length (segments cfg)
      \<and> (is_fulfilled r \<longrightarrow> p' - p = length (segments cfg))
      \<and> captured new = map (Pair i) [0..<p' - p]
      \<and> isCancelled st2 = (isCancelled st \<or> CancelCalled \<in> set new)"
    if sl: "segment_loop h u vp T i (segments cfg) 0 [] p st = (Fulfilled bs, p', st1)"
      and e: "effects st2 = effects st1 @ more" "captured more = []" "progress_values more = []"
        "reported T c False more" "isCancelled st2 = (isCancelled st1 \<or> CancelCalled \<in> set more)"
    for bs st1 st2 more c
  proof -
    from seg[OF sl] obtain new where new': "effects st1 = effects st @ new
      \<and> reported T p False new \<and> p \<le> p' \<and> p' - p \<le> length (segments cfg)
      \<and> (is_fulfilled (Fulfilled bs) \<longrightarrow> p' - p = length (segments cfg))
      \<and> captured new = map (Pair i) [0..<p' - p]
      \<and> isCancelled st1 = (isCancelled st \<or> CancelCalled \<in> set new)" ..
    then have new: "effects st1 = effects st @ new"
      "reported T p False new" "p \<le> p'" "p' - p \<le> length (segments cfg)"
      "p' - p = length (segments cfg)" "captured new = map (Pair i) [0..<p' - p]"
      "isCancelled st1 = (isCancelled st \<or> CancelCalled \<in> set new)" by simp_all
    have more: "reported T c' False more" for c'
      using e(2,3,4)
    proof (induction more arbitrary: c)
      case Nil
      then show ?case by simp
    next
      case (Cons x more)
      then show ?case by (cases x) auto
    qed
    have "effects st2 = effects st @ (new @ more)" using new(1) e(1) by simp
    moreover have "reported T p False (new @ more)"
      using new(2) more by (rule reported_append)
    moreover have "captured (new @ more) = map (Pair i) [0..<p' - p]" using new(6) e(2) by simp
    moreover have "isCancelled st2 = (isCancelled st \<or> CancelCalled \<in> set (new @ more))"
      using new(7) e(5) by auto
    ultimately show ?thesis using new(3,4,5) by blast
  qed
  from assms show ?thesis
  proof (cases rule: process_config_cases)
    case (segments_rejected e)
    from seg[OF this(1)] show ?thesis using segments_rejected(2) by simp
  next
    case (none st1)
    from ext[OF none(1), of st' "[CombineCalled i []]" 0] none show ?thesis by simp
  next
    case (single bs)
    from seg[OF this(1)] show ?thesis using single by simp
  next
    case (many_rejected bs st1 m)
    from ext[OF many_rejected(1), of st'
        "CombineCalled i bs # Rerecording i bs # (if cancel_during_combine h i then [CancelCalled] else [])" 0]
      many_rejected show ?thesis by simp
  next
    case (many bs st1 b)
    from ext[OF many(1), of st'
        "CombineCalled i bs # Rerecording i bs # (if cancel_during_combine h i then [CancelCalled] else [])" 0]
      many show ?thesis by simp
  qed
qed

lemma process_config_fulfilled:
  assumes run: "process_config h u vp T i cfg p st = (Fulfilled out, p', st')"
  shows "name out = cfg_name cfg \<and> config_ok h vp i cfg \<and> p' = p + length (segments cfg)
    \<and> (length (segments cfg) = 1 \<longrightarrow>
       extract_outcome h i 0 vp = Fulfilled (blob out)
       \<and> combine_calls i (effects st') = combine_calls i (effects st))
    \<and> (length (segments cfg) \<noteq> 1 \<longrightarrow>
       (\<exists>bs. combine_calls i (effects st') = combine_calls i (effects st) @ [bs]
          \<and> length bs = length (segments cfg) \<and> 2 \<le> length bs
          \<and> (\<forall>j<length bs. extract_outcome h i j vp = Fulfilled (bs ! j))
          \<and> combine_outcome h i vp = Fulfilled (blob out)))
    \<and> extract_calls (effects st') =
       extract_calls (effects st) @ map (Pair i) [0..<length (segments cfg)]
    \<and> isCancelled st' = (isCancelled st \<or> cancel_in_config h i cfg)"
  using run
proof (cases rule: process_config_cases)
  case (single bs)
  note sl = segment_loop_all[OF single(1)]
  show ?thesis using sl(1,2,3,4,6) sl(5)[of i] single(2,3,4)
    by (auto simp: config_ok_def cancel_in_config_def)
next
  case (many bs st1 b)
  note sl = segment_loop_all[OF many(1)]
  have "combine_calls i (effects st') = combine_calls i (effects st) @ [bs]"
    using sl(5)[of i] many(6) by simp
  moreover have "\<forall>j<length bs. extract_outcome h i j vp = Fulfilled (bs ! j)"
    using sl(1,3) by simp
  moreover have "config_ok h vp i cfg"
    using sl(1,3) many(2,3,4) by (auto simp: config_ok_def)
  moreover have "isCancelled st' = (isCancelled st \<or> cancel_in_config h i cfg)"
    using sl(1,6) many(2,3,6) by (auto simp: cancel_in_config_def)
  moreover have "extract_calls (effects st') =
       extract_calls (effects st) @ map (Pair i) [0..<length (segments cfg)]"
    using sl(4) many(6) by simp
  ultimately show ?thesis using sl(1,2) many(2,3,4,5) by auto
qed simp_all

lemma process_config_rejected:
  assumes run: "process_config h u vp T i cfg p st = (Rejected e, p', st')"
  shows "config_failure h vp i cfg e \<and> \<not> config_ok h vp i cfg"
  using run
proof (cases rule: process_config_cases)
  case (segments_rejected e')
  from segment_loop_outcomes[OF this(1)] segment_loop_count[OF this(1)]
  have "extract_outcome h i (p' - p) vp = Rejected e" "p' - p < length (segments cfg)"
    using segments_rejected(2) by auto
  then show ?thesis
    by (auto simp: config_failure_def config_ok_def intro!: exI[of _ "p' - p"])
next
  case (none st1)
  then show ?thesis by (simp add: config_failure_def config_ok_def)
next
  case (many_rejected bs st1 m)
  then show ?thesis by (auto simp: config_failure_def config_ok_def)
qed simp_all

lemma process_config_other_calls:
  assumes run: "process_config h u vp T i cfg p st = (r, p', st')" and c: "c \<noteq> i"
  shows "combine_calls c (effects st') = combine_calls c (effects st)"
  using run
proof (cases rule: process_config_cases)
  case (segments_rejected e)
  from segment_loop_effects[OF this(1)] show ?thesis by auto
next
  case (none st1)
  from segment_loop_effects[OF this(1)] none(4) c show ?thesis by auto
next
  case (single bs)
  from segment_loop_effects[OF this(1)] show ?thesis by auto
next
  case (many_rejected bs st1 m)
  from segment_loop_effects[OF this(1)] many_rejected(6) c show ?thesis by auto
next
  case (many bs st1 b)
  from segment_loop_effects[OF this(1)] many(6) c show ?thesis by auto
qed

lemma process_config_captured:
  assumes run: "process_config h u vp T i cfg p st = (Fulfilled out, p', st')"
  shows "captured (effects st') =
           captured (effects st) @ map (Pair i) [0..<length (segments cfg)]"
  using run
proof (cases rule: process_config_cases)
  case (single bs)
  from segment_loop_captured[OF single(1)] show ?thesis .
next
  case (many bs st1 b)
  from segment_loop_captured[OF many(1)] many(6) show ?thesis by simp
qed simp_all

lemma process_config_produced:
  assumes "process_config h u vp T i cfg p st = (Fulfilled out, p', st')"
  shows "\<exists>calls. combine_calls i (effects st') = combine_calls i (effects st) @ calls
           \<and> produced h vp i cfg out calls"
proof (cases "length (segments cfg) = 1")
  case True
  with process_config_fulfilled[OF assms] show ?thesis
    by (intro exI[of _ "[]"]) (simp add: produced_def)
next
  case False
  with process_config_fulfilled[OF assms] obtain bs where
    "combine_calls i (effects st') = combine_calls i (effects st) @ [bs]"
    "length bs = length (segments cfg)" "2 \<le> length bs"
    "\<forall>j<length bs. extract_outcome h i j vp = Fulfilled (bs ! j)"
    "combine_outcome h i vp = Fulfilled (blob out)" "name out = cfg_name cfg" by auto
  with False show ?thesis
    by (intro exI[of _ "[bs]"]) (auto simp: produced_def)
qed

section \<open>The loop over the configurations\<close>

lemma config_loop_finished:
  "\<not> ci < length cfgs \<Longrightarrow> config_loop h u vp T cfgs ci outs p st = (Fulfilled outs, st)"
  by (subst config_loop.simps) simp

lemma config_loop_cancelled:
  "ci < length cfgs \<Longrightarrow> isCancelled st \<Longrightarrow>
   config_loop h u vp T cfgs ci outs p st = (Rejected ''Processing cancelled'', st)"
  by (subst config_loop.simps) simp

lemma config_loop_failed:
  "ci < length cfgs \<Longrightarrow> \<not> isCancelled st \<Longrightarrow>
   process_config h u vp T ci (cfgs ! ci) p st = (Rejected e, p1, st1) \<Longrightarrow>
   config_loop h u vp T cfgs ci outs p st = (Rejected e, st1)"
  by (subst config_loop.simps) simp

lemma config_loop_step:
  "ci < length cfgs \<Longrightarrow> \<not> isCancelled st \<Longrightarrow>
   process_config h u vp T ci (cfgs ! ci) p st = (Fulfilled out, p1, st1) \<Longrightarrow>
   config_loop h u vp T cfgs ci outs p st =
     config_loop h u vp T cfgs (Suc ci) (outs @ [out]) p1 st1"
  by (subst config_loop.simps) simp

lemma config_loop_induct [consumes 1, case_names finished cancelled failed step]:
  assumes run: "config_loop h u vp T cfgs ci outs p st = (r, st')"
    and finished: "\<And>ci outs p st. \<not> ci < length cfgs \<Longrightarrow> P ci outs p st (Fulfilled outs) st"
    and cancelled: "\<And>ci outs p st. ci < length cfgs \<Longrightarrow> isCancelled st \<Longrightarrow>
        P ci outs p st (Rejected ''Processing cancelled'') st"
    and failed: "\<And>ci outs p st e p1 st1. ci < length cfgs \<Longrightarrow> \<not> isCancelled st \<Longrightarrow>
        process_config h u vp T ci (cfgs ! ci) p st = (Rejected e, p1, st1) \<Longrightarrow>
        P ci outs p st (Rejected e) st1"
    and step: "\<And>ci outs p st out p1 st1 r st'. ci < length cfgs \<Longrightarrow> \<not> isCancelled st \<Longrightarrow>
        process_config h u vp T ci (cfgs ! ci) p st = (Fulfilled out, p1, st1) \<Longrightarrow>
        config_loop h u vp T cfgs (Suc ci) (outs @ [out]) p1 st1 = (r, st') \<Longrightarrow>
        P (Suc ci) (outs @ [out]) p1 st1 r st' \<Longrightarrow>
        P ci outs p st r st'"
  shows "P ci outs p st r st'"
  using run
proof (induction "length cfgs - ci" arbitrary: ci outs p st)
  case 0
  then show ?case using finished[of ci outs p st] by (simp add: config_loop_finished)
next
  case (Suc n)
  then have ci: "ci < length cfgs" by simp
  show ?case
  proof (cases "isCancelled st")
    case True
    with Suc.prems ci cancelled[of ci st outs p] show ?thesis
      by (simp add: config_loop_cancelled)
  next
    case False
    obtain r1 p1 st1 where pc: "process_config h u vp T ci (cfgs ! ci) p st = (r1, p1, st1)"
      by (cases "process_config h u vp T ci (cfgs ! ci) p st") auto
    show ?thesis
    proof (cases r1)
      case (Rejected e)
      with pc have pc': "process_config h u vp T ci (cfgs ! ci) p st = (Rejected e, p1, st1)"
        by simp
      from config_loop_failed[OF ci False pc'] Suc.prems failed[OF ci False pc']
      show ?thesis by simp
    next
      case (Fulfilled out)
      with pc have pc': "process_config h u vp T ci (cfgs ! ci) p st = (Fulfilled out, p1, st1)"
        by simp
      have n: "n = length cfgs - Suc ci" using Suc.hyps(2) by simp
      have run': "config_loop h u vp T cfgs (Suc ci) (outs @ [out]) p1 st1 = (r, st')"
        using config_loop_step[OF ci False pc'] Suc.prems by simp
      from step[OF ci False pc' run' Suc.hyps(1)[OF n run']] show ?thesis .
    qed
  qed
qed

lemma segments_from_step:
  "k < length cfgs \<Longrightarrow>
   segments_from cfgs k = map (Pair k) [0..<length (segments (cfgs ! k))] @ segments_from cfgs (Suc k)"
  by (simp add: segments_from_def upt_conv_Cons)

lemma segments_from_end: "\<not> k < length cfgs \<Longrightarrow> segments_from cfgs k = []"
  by (simp add: segments_from_def)

lemma all_segments_from: "all_segments cfgs = segments_from cfgs 0"
  by (simp add: all_segments_def segments_from_def)

lemma segments_before_Suc:
  "segments_before cfgs (Suc k) =
     segments_before cfgs k @ map (Pair k) [0..<length (segments (cfgs ! k))]"
  by (simp add: segments_before_def)

lemma foldl_total: "foldl (\<lambda>total c. total + length (segments c)) a cfgs
    = a + sum_list (map (\<lambda>c. length (segments c)) cfgs)"
  by (induction cfgs arbitrary: a) simp_all

lemma length_segments_from:
  "length (segments_from cfgs k) = sum_list (map (\<lambda>c. length (segments c)) (drop k cfgs))"
proof -
  have "map (\<lambda>i. length (segments (cfgs ! i))) [k..<length cfgs]
      = map (\<lambda>c. length (segments c)) (drop k cfgs)"
    by (rule nth_equalityI) simp_all
  then show ?thesis
    by (simp add: segments_from_def length_concat comp_def)
qed

lemma total_segments_length: "total_segments cfgs = length (all_segments cfgs)"
  by (simp add: total_segments_def foldl_total all_segments_from length_segments_from)

lemma config_loop_trace:
  assumes "config_loop h u vp T cfgs ci outs p st = (r, st')"
  shows "\<exists>new n. effects st' = effects st @ new
      \<and> reported T p False new
      \<and> captured new = take n (segments_from cfgs ci)
      \<and> n \<le> length (segments_from cfgs ci)
      \<and> (is_fulfilled r \<longrightarrow> n = length (segments_from cfgs ci))
      \<and> isCancelled st' = (isCancelled st \<or> CancelCalled \<in> set new)"
  using assms
proof (induction rule: config_loop_induct)
  case (finished ci outs p st)
  show ?case by (rule exI[of _ "[]"], rule exI[of _ 0]) (simp add: segments_from_end finished)
next
  case (cancelled ci outs p st)
  show ?case by (rule exI[of _ "[]"], rule exI[of _ 0]) simp
next
  case (failed ci outs p st e p1 st1)
  from process_config_trace[OF failed(3)] obtain new where new:
    "effects st1 = effects st @ new" "reported T p False new" "p \<le> p1"
    "p1 - p \<le> length (segments (cfgs ! ci))" "captured new = map (Pair ci) [0..<p1 - p]"
    "isCancelled st1 = (isCancelled st \<or> CancelCalled \<in> set new)" by blast
  have "captured new = take (p1 - p) (segments_from cfgs ci)"
    using new(4,5) failed(1) by (simp add: segments_from_step take_map)
  moreover have "p1 - p \<le> length (segments_from cfgs ci)"
    using new(4) failed(1) by (simp add: segments_from_step)
  ultimately show ?case using new(1,2,6) by auto
next
  case (step ci outs p st out p1 st1 r st')
  from process_config_trace[OF step(3)] obtain new where "effects st1 = effects st @ new
      \<and> reported T p False new
      \<and> p \<le> p1 \<and> p1 - p \<le> length (segments (cfgs ! ci))
      \<and> (is_fulfilled (Fulfilled out) \<longrightarrow> p1 - p = length (segments (cfgs ! ci)))
      \<and> captured new = map (Pair ci) [0..<p1 - p]
      \<and> isCancelled st1 = (isCancelled st \<or> CancelCalled \<in> set new)" ..
  then have new:
    "effects st1 = effects st @ new" "reported T p False new" "p \<le> p1"
    "p1 - p = length (segments (cfgs ! ci))" "captured new = map (Pair ci) [0..<p1 - p]"
    "isCancelled st1 = (isCancelled st \<or> CancelCalled \<in> set new)" by simp_all
  from step.IH obtain new' n where new':
    "effects st' = effects st1 @ new'" "reported T p1 False new'"
    "captured new' = take n (segments_from cfgs (Suc ci))"
    "n \<le> length (segments_from cfgs (Suc ci))"
    "is_fulfilled r \<longrightarrow> n = length (segments_from cfgs (Suc ci))"
    "isCancelled st' = (isCancelled st1 \<or> CancelCalled \<in> set new')" by blast
  have p1: "p1 = p + length (captured new)" using new(3,5) by simp
  have "effects st' = effects st @ (new @ new')" using new(1) new'(1) by simp
  moreover have "reported T p False (new @ new')"
    using new(2) new'(2) p1 by (auto intro: reported_append)
  moreover have "captured (new @ new') = take (p1 - p + n) (segments_from cfgs ci)"
    using new(4,5) new'(3) step(1) by (simp add: segments_from_step)
  moreover have "p1 - p + n \<le> length (segments_from cfgs ci)"
    using new(4) new'(4) step(1) by (simp add: segments_from_step)
  moreover have "is_fulfilled r \<longrightarrow> p1 - p + n = length (segments_from cfgs ci)"
    using new(4) new'(5) step(1) by (simp add: segments_from_step)
  moreover have "isCancelled st' = (isCancelled st \<or> CancelCalled \<in> set (new @ new'))"
    using new(6) new'(6) by auto
  ultimately show ?case by blast
qed

lemma config_loop_other_calls:
  assumes "config_loop h u vp T cfgs ci outs p st = (r, st')" and "c < ci"
  shows "combine_calls c (effects st') = combine_calls c (effects st)"
  using assms
proof (induction rule: config_loop_induct)
  case (step ci outs p st out p1 st1 r st')
  from process_config_other_calls[OF step(3), of c] step.prems
  have "combine_calls c (effects st1) = combine_calls c (effects st)" by simp
  with step.IH step.prems show ?case by simp
next
  case (failed ci outs p st e p1 st1)
  from process_config_other_calls[OF failed(3), of c] failed.prems show ?case by simp
qed simp_all

lemma config_loop_fulfilled:
  assumes "config_loop h u vp T cfgs ci outs p st = (r, st')"
  shows "\<forall>outs'. r = Fulfilled outs' \<longrightarrow>
       length outs' = length outs + (length cfgs - ci)
     \<and> (\<forall>j<length outs. outs' ! j = outs ! j)
     \<and> (\<forall>i. ci \<le> i \<and> i < length cfgs \<longrightarrow>
           config_ok h vp i (cfgs ! i)
         \<and> (\<exists>calls. combine_calls i (effects st') = combine_calls i (effects st) @ calls
               \<and> produced h vp i (cfgs ! i) (outs' ! (length outs + (i - ci))) calls))"
  using assms
proof (induction rule: config_loop_induct)
  case (finished ci outs p st)
  then show ?case by auto
next
  case (cancelled ci outs p st)
  then show ?case by simp
next
  case (failed ci outs p st e p1 st1)
  then show ?case by simp
next
  case (step ci outs p st out p1 st1 r st')
  show ?case
  proof (intro allI impI)
    fix outs' assume r: "r = Fulfilled outs'"
    with step.IH have IH:
      "length outs' = length (outs @ [out]) + (length cfgs - Suc ci)"
      "\<forall>j<length (outs @ [out]). outs' ! j = (outs @ [out]) ! j"
      "\<forall>i. Suc ci \<le> i \<and> i < length cfgs \<longrightarrow>
           config_ok h vp i (cfgs ! i)
         \<and> (\<exists>calls. combine_calls i (effects st') = combine_calls i (effects st1) @ calls
               \<and> produced h vp i (cfgs ! i) (outs' ! (length (outs @ [out]) + (i - Suc ci))) calls)"
      by simp_all
    have a: "length outs' = length outs + (length cfgs - ci)" using IH(1) step(1) by simp
    have b: "\<forall>j<length outs. outs' ! j = outs ! j" using IH(2) by (auto simp: nth_append)
    have c: "config_ok h vp i (cfgs ! i)
         \<and> (\<exists>calls. combine_calls i (effects st') = combine_calls i (effects st) @ calls
               \<and> produced h vp i (cfgs ! i) (outs' ! (length outs + (i - ci))) calls)"
      if i: "ci \<le> i \<and> i < length cfgs" for i
    proof (cases "i = ci")
      case True
      have "outs' ! length outs = out" using IH(2) by simp
      moreover from process_config_produced[OF step(3)] obtain calls where
        "combine_calls ci (effects st1) = combine_calls ci (effects st) @ calls"
        "produced h vp ci (cfgs ! ci) out calls" by blast
      moreover have "combine_calls ci (effects st') = combine_calls ci (effects st1)"
        using config_loop_other_calls[OF step(4), of ci] by simp
      moreover have "config_ok h vp ci (cfgs ! ci)"
        using process_config_fulfilled[OF step(3)] by simp
      ultimately show ?thesis using True by auto
    next
      case False
      with i have i': "Suc ci \<le> i \<and> i < length cfgs" by simp
      have "i - ci = Suc (i - Suc ci)" using i' by arith
      then have idx: "length (outs @ [out]) + (i - Suc ci) = length outs + (i - ci)"
        by simp
      have "combine_calls i (effects st1) = combine_calls i (effects st)"
        using process_config_other_calls[OF step(3), of i] False by simp
      moreover from IH(3) i' have "config_ok h vp i (cfgs ! i)
         \<and> (\<exists>calls. combine_calls i (effects st') = combine_calls i (effects st1) @ calls
               \<and> produced h vp i (cfgs ! i) (outs' ! (length (outs @ [out]) + (i - Suc ci))) calls)"
        by blast
      ultimately show ?thesis unfolding idx by metis
    qed
    show "length outs' = length outs + (length cfgs - ci)
     \<and> (\<forall>j<length outs. outs' ! j = outs ! j)
     \<and> (\<forall>i. ci \<le> i \<and> i < length cfgs \<longrightarrow>
           config_ok h vp i (cfgs ! i)
         \<and> (\<exists>calls. combine_calls i (effects st') = combine_calls i (effects st) @ calls
               \<and> produced h vp i (cfgs ! i) (outs' ! (length outs + (i - ci))) calls))"
      using a b c by blast
  qed
qed

lemma config_loop_rejected:
  assumes "config_loop h u vp T cfgs ci outs p st = (r, st')"
  shows "\<forall>e. r = Rejected e \<longrightarrow>
           e = ''Processing cancelled''
           \<or> (\<exists>i. ci \<le> i \<and> i < length cfgs \<and> config_failure h vp i (cfgs ! i) e)"
  using assms
proof (induction rule: config_loop_induct)
  case (failed ci outs p st e p1 st1)
  from process_config_rejected[OF failed(3)] failed(1) show ?case by auto
next
  case (step ci outs p st out p1 st1 r st')
  show ?case
  proof (intro allI impI)
    fix e assume "r = Rejected e"
    with step.IH have "e = ''Processing cancelled''
           \<or> (\<exists>i. Suc ci \<le> i \<and> i < length cfgs \<and> config_failure h vp i (cfgs ! i) e)"
      by simp
    then show "e = ''Processing cancelled''
           \<or> (\<exists>i. ci \<le> i \<and> i < length cfgs \<and> config_failure h vp i (cfgs ! i) e)"
      using Suc_leD by blast
  qed
qed simp_all

lemma config_loop_advance:
  "N \<le> length cfgs \<Longrightarrow> \<not> isCancelled st \<Longrightarrow>
   (\<forall>i<N. config_ok h vp i (cfgs ! i)) \<Longrightarrow>
   (\<forall>i. Suc i < N \<longrightarrow> \<not> cancel_in_config h i (cfgs ! i)) \<Longrightarrow>
   \<exists>outs' p' st'.
      config_loop h u vp T cfgs 0 [] 0 st = config_loop h u vp T cfgs N outs' p' st'
    \<and> length outs' = N
    \<and> extract_calls (effects st') = extract_calls (effects st) @ segments_before cfgs N
    \<and> captured (effects st') = captured (effects st) @ segments_before cfgs N
    \<and> isCancelled st' = (0 < N \<and> cancel_in_config h (N - 1) (cfgs ! (N - 1)))"
proof (induction N)
  case 0
  show ?case
    by (intro exI[of _ "[]"] exI[of _ 0] exI[of _ st]) (simp add: segments_before_def 0)
next
  case (Suc N)
  from Suc.prems have "N \<le> length cfgs" "\<forall>i<N. config_ok h vp i (cfgs ! i)"
    "\<forall>i. Suc i < N \<longrightarrow> \<not> cancel_in_config h i (cfgs ! i)" by auto
  from Suc.IH[OF this(1) Suc.prems(2) this(2,3)] obtain outs1 p1 st1 where 1:
    "config_loop h u vp T cfgs 0 [] 0 st = config_loop h u vp T cfgs N outs1 p1 st1"
    "length outs1 = N"
    "extract_calls (effects st1) = extract_calls (effects st) @ segments_before cfgs N"
    "captured (effects st1) = captured (effects st) @ segments_before cfgs N"
    "isCancelled st1 = (0 < N \<and> cancel_in_config h (N - 1) (cfgs ! (N - 1)))" by blast
  have N: "N < length cfgs" using Suc.prems(1) by simp
  have nc: "\<not> isCancelled st1"
  proof (cases N)
    case 0
    with 1(5) show ?thesis by simp
  next
    case (Suc n)
    with Suc.prems(4) have "\<not> cancel_in_config h n (cfgs ! n)" by simp
    with 1(5) Suc show ?thesis by simp
  qed
  obtain r2 p2 st2 where pc: "process_config h u vp T N (cfgs ! N) p1 st1 = (r2, p2, st2)"
    by (cases "process_config h u vp T N (cfgs ! N) p1 st1") auto
  have okN: "config_ok h vp N (cfgs ! N)" using Suc.prems(3) by simp
  obtain out where r2: "r2 = Fulfilled out"
  proof (cases r2)
    case (Rejected e)
    with pc process_config_rejected[of h u vp T N "cfgs ! N" p1 st1 e p2 st2] okN
    show ?thesis by simp
  qed
  with pc have pc': "process_config h u vp T N (cfgs ! N) p1 st1 = (Fulfilled out, p2, st2)"
    by simp
  note f = process_config_fulfilled[OF pc'] process_config_captured[OF pc']
  have "config_loop h u vp T cfgs 0 [] 0 st =
          config_loop h u vp T cfgs (Suc N) (outs1 @ [out]) p2 st2"
    using 1(1) config_loop_step[OF N nc pc'] by simp
  moreover have "length (outs1 @ [out]) = Suc N" using 1(2) by simp
  moreover have "extract_calls (effects st2) =
      extract_calls (effects st) @ segments_before cfgs (Suc N)"
    using f(1) 1(3) by (simp add: segments_before_Suc)
  moreover have "captured (effects st2) =
      captured (effects st) @ segments_before cfgs (Suc N)"
    using f(2) 1(4) by (simp add: segments_before_Suc)
  moreover have "isCancelled st2 =
      (0 < Suc N \<and> cancel_in_config h (Suc N - 1) (cfgs ! (Suc N - 1)))"
    using f(1) nc by simp
  ultimately show ?case by blast
qed


section \<open>A run of \<open>processVideos\<close>\<close>

lemma processVideos_loaded:
  "source_loads h \<Longrightarrow>
   processVideos h u cfgs st0 =
     config_loop h u (getVideoProperties h u) (total_segments cfgs) cfgs 0 [] 0
       (while_pending (cancel_during_load h) (st0\<lparr>isCancelled := False\<rparr>))"
  by (simp add: processVideos_def Let_def)

lemma processVideos_not_loaded:
  "\<not> source_loads h \<Longrightarrow>
   processVideos h u cfgs st0 =
     (Rejected ''Failed to load video'',
      while_pending (cancel_during_load h) (st0\<lparr>isCancelled := False\<rparr>))"
  by (simp add: processVideos_def Let_def)

lemma processVideos_trace:
  assumes "processVideos h u cfgs st0 = (r, st)"
  shows "\<exists>new n. effects st = effects st0 @ new
      \<and> reported (total_segments cfgs) 0 False new
      \<and> captured new = take n (all_segments cfgs)
      \<and> n \<le> total_segments cfgs
      \<and> (is_fulfilled r \<longrightarrow> n = total_segments cfgs)
      \<and> isCancelled st = (CancelCalled \<in> set new)"
proof (cases "source_loads h")
  case False
  with assms have "r = Rejected ''Failed to load video''"
    "st = while_pending (cancel_during_load h) (st0\<lparr>isCancelled := False\<rparr>)"
    by (simp_all add: processVideos_def)
  then show ?thesis
    by (intro exI[of _ "if cancel_during_load h then [CancelCalled] else []"] exI[of _ 0]) simp
next
  case True
  let ?st1 = "while_pending (cancel_during_load h) (st0\<lparr>isCancelled := False\<rparr>)"
  let ?c = "if cancel_during_load h then [CancelCalled] else []"
  from assms True have
    "config_loop h u (getVideoProperties h u) (total_segments cfgs) cfgs 0 [] 0 ?st1 = (r, st)"
    by (simp add: processVideos_def Let_def)
  from config_loop_trace[OF this] obtain new n where new:
    "effects st = effects ?st1 @ new" "reported (total_segments cfgs) 0 False new"
    "captured new = take n (segments_from cfgs 0)" "n \<le> length (segments_from cfgs 0)"
    "is_fulfilled r \<longrightarrow> n = length (segments_from cfgs 0)"
    "isCancelled st = (isCancelled ?st1 \<or> CancelCalled \<in> set new)" by blast
  have "effects st = effects st0 @ (?c @ new)" using new(1) by simp
  moreover have "reported (total_segments cfgs) 0 False (?c @ new)" using new(2) by simp
  moreover have "captured (?c @ new) = take n (all_segments cfgs)"
    using new(3) by (simp add: all_segments_from)
  moreover have "isCancelled st = (CancelCalled \<in> set (?c @ new))" using new(6) by auto
  ultimately show ?thesis using new(4,5)
    by (metis all_segments_from total_segments_length)
qed

section \<open>Where a rejected run stops\<close>

text \<open>
  A rejected loop over the segments stops at the extraction that was rejected; a
  rejected configuration stops at that extraction or at its failing combination; and
  a rejected run stops there too, having processed the configurations before it and
  nothing of the configurations after it.
\<close>

lemma steps_simps [simp]:
  "steps [] = []"
  "steps (CancelCalled # es) = steps es"
  "steps (ExtractCalled i j s e # es) = ExtractCalled i j s e # steps es"
  "steps (SegmentCaptured i j # es) = SegmentCaptured i j # steps es"
  "steps (Progress v # es) = Progress v # steps es"
  "steps (CombineCalled i bs # es) = CombineCalled i bs # steps es"
  "steps (Rerecording i bs # es) = Rerecording i bs # steps es"
  "steps (xs @ ys) = steps xs @ steps ys"
  by (simp_all add: steps_def)




lemma segments_between_empty [simp]: "segments_between cfgs a a = []"
  by (simp add: segments_between_def)

lemma segments_between_Suc:
  "a \<le> b \<Longrightarrow>
   segments_between cfgs a (Suc b) =
     segments_between cfgs a b @ map (Pair b) [0..<length (segments (cfgs ! b))]"
  by (simp add: segments_between_def)





section \<open>The concrete runs\<close>

lemma string_of_nat_0: "string_of_nat 0 = ''0''"
  by code_simp

lemma string_of_nat_1: "string_of_nat (Suc 0) = ''1''"
  by code_simp

lemma example_host_simps:
  "source_loads example_host" "videoWidth example_host = 1920"
  "videoHeight example_host = 1080" "mozHasAudio example_host = None"
  "isTypeSupported example_host t = (t = ''video/mp4'')"
  "extract_event example_host i j = Recorded [\<lparr>blob_data = [i, j], blob_type = []\<rparr>]"
  "combine_event example_host i = CombineRecorded [\<lparr>blob_data = [i], blob_type = []\<rparr>]"
  "createObjectURL example_host i = ''blob:'' @ string_of_nat i"
  "\<not> cancel_during_load example_host" "\<not> cancel_during_extract example_host i j"
  "\<not> cancel_during_combine example_host i"
  by (simp_all add: example_host_def)

lemma cancelling_host_simps:
  "source_loads cancelling_host" "videoWidth cancelling_host = 1920"
  "videoHeight cancelling_host = 1080" "mozHasAudio cancelling_host = None"
  "isTypeSupported cancelling_host t = (t = ''video/mp4'')"
  "extract_event cancelling_host i j = Recorded [\<lparr>blob_data = [i, j], blob_type = []\<rparr>]"
  "combine_event cancelling_host i = CombineRecorded [\<lparr>blob_data = [i], blob_type = []\<rparr>]"
  "createObjectURL cancelling_host i = ''blob:'' @ string_of_nat i"
  "\<not> cancel_during_load cancelling_host"
  "cancel_during_extract cancelling_host i j = (i = 0 \<and> j = 0)"
  "\<not> cancel_during_combine cancelling_host i"
  by (simp_all add: cancelling_host_def example_host_def)

lemma failing_host_simps:
  "source_loads failing_host" "videoWidth failing_host = 1920"
  "videoHeight failing_host = 1080" "mozHasAudio failing_host = None"
  "isTypeSupported failing_host t = (t = ''video/mp4'')"
  "extract_event failing_host i j =
     (if i = 0 \<and> j = 0 then PlayRejected else Recorded [\<lparr>blob_data = [i, j], blob_type = []\<rparr>])"
  "combine_event failing_host i = CombineRecorded [\<lparr>blob_data = [i], blob_type = []\<rparr>]"
  "createObjectURL failing_host i = ''blob:'' @ string_of_nat i"
  "\<not> cancel_during_load failing_host" "\<not> cancel_during_extract failing_host i j"
  "\<not> cancel_during_combine failing_host i"
  by (simp_all add: failing_host_def example_host_def)

lemma example_properties:
  "getVideoProperties example_host ''blob:source'' =
     \<lparr>vp_width = 1920, vp_height = 1080, vp_frameRate = 30, vp_bitrate = 8000000,
      vp_format = ''video/mp4'', vp_hasAudio = True\<rparr>"
  "getVideoProperties cancelling_host ''blob:source'' =
     \<lparr>vp_width = 1920, vp_height = 1080, vp_frameRate = 30, vp_bitrate = 8000000,
      vp_format = ''video/mp4'', vp_hasAudio = True\<rparr>"
  "getVideoProperties failing_host ''blob:source'' =
     \<lparr>vp_width = 1920, vp_height = 1080, vp_frameRate = 30, vp_bitrate = 8000000,
      vp_format = ''video/mp4'', vp_hasAudio = True\<rparr>"
  by (simp_all add: getVideoProperties_def example_host_simps cancelling_host_simps
        failing_host_simps toLowerCase_def last_piece_def lower_char_def Let_def)

lemmas run_simps = processVideos_def total_segments_def
     config_loop.simps process_config_def segment_loop.simps extractVideoSegment_def
     extract_outcome_def combineVideoSegments_def combine_outcome_def
     while_pending_def emit_def cancelProcessing_def Let_def
     extract_outputFormat_def combine_outputFormat_def recorded_blob_def first_piece_def
     example_configs_def fresh_state_def example_properties
     example_host_simps cancelling_host_simps failing_host_simps
     string_of_nat_0 string_of_nat_1

lemma example_run:
  "processVideos example_host ''blob:source'' example_configs fresh_state =
     (Fulfilled
        [\<lparr>name = ''Clip A'', url = ''blob:0'',
          blob = \<lparr>blob_data = [0, 0], blob_type = ''video/mp4''\<rparr>,
          format = Some ''video/mp4''\<rparr>,
         \<lparr>name = ''Clip B'', url = ''blob:1'',
          blob = \<lparr>blob_data = [1], blob_type = ''video/mp4''\<rparr>,
          format = Some ''video/mp4''\<rparr>],
      \<lparr>isCancelled = False,
       effects =
         [ExtractCalled 0 0 0 5, SegmentCaptured 0 0, Progress (100 / 3),
          ExtractCalled 1 0 0 3, SegmentCaptured 1 0, Progress (200 / 3),
          ExtractCalled 1 1 6 9, SegmentCaptured 1 1, Progress 100,
          CombineCalled 1
            [\<lparr>blob_data = [1, 0], blob_type = ''video/mp4''\<rparr>,
             \<lparr>blob_data = [1, 1], blob_type = ''video/mp4''\<rparr>],
          Rerecording 1
            [\<lparr>blob_data = [1, 0], blob_type = ''video/mp4''\<rparr>,
             \<lparr>blob_data = [1, 1], blob_type = ''video/mp4''\<rparr>]]\<rparr>)"
  by (simp add: run_simps)

lemma cancelled_run:
  "processVideos cancelling_host ''blob:source'' example_configs fresh_state =
     (Rejected ''Processing cancelled'',
      \<lparr>isCancelled = True,
       effects = [ExtractCalled 0 0 0 5, CancelCalled, SegmentCaptured 0 0, Progress (100 / 3)]\<rparr>)"
  by (simp add: run_simps)


section \<open>Progress reports\<close>

text \<open>
  Claim C3. In every run of \<open>processVideos\<close>, whatever its outcome: the values passed
  to \<open>onProgress\<close> are \<open>k / total * 100\<close> for \<open>k = 1, ..., n\<close>, where \<open>n\<close> is the
  number of segments captured, in the order of all segments of all configurations, and
  \<open>n\<close> is the total when the run is fulfilled; they are sorted; every report follows
  at once the capture of a segment and carries (segments captured so far) / total * 100;
  every captured segment is followed at once by a report; and when 100 is reported,
  all segments of all configurations have been captured.
\<close>

theorem progress_reporting:
  assumes run: "processVideos h u cfgs st0 = (r, st)"
  shows "\<exists>new n. effects st = effects st0 @ new
     \<and> n \<le> total_segments cfgs
     \<and> (is_fulfilled r \<longrightarrow> n = total_segments cfgs)
     \<and> captured new = take n (all_segments cfgs)
     \<and> progress_values new =
         map (\<lambda>k. real k / real (total_segments cfgs) * 100) [1..<Suc n]
     \<and> sorted (progress_values new)
     \<and> (\<forall>pre v post. new = pre @ Progress v # post \<longrightarrow>
           (\<exists>pre' i j. pre = pre' @ [SegmentCaptured i j])
           \<and> v = real (length (captured pre)) / real (total_segments cfgs) * 100)
     \<and> (\<forall>pre i j post. new = pre @ SegmentCaptured i j # post \<longrightarrow>
           (\<exists>v post'. post = Progress v # post'))
     \<and> (\<forall>pre post. new = pre @ Progress 100 # post \<longrightarrow> captured pre = all_segments cfgs)"
proof -
  let ?T = "total_segments cfgs"
  from processVideos_trace[OF run] obtain new n where new:
    "effects st = effects st0 @ new" "reported ?T 0 False new"
    "captured new = take n (all_segments cfgs)" "n \<le> ?T"
    "is_fulfilled r \<longrightarrow> n = ?T" by blast
  have len: "length (captured new) = n"
    using new(3,4) by (simp add: total_segments_length)
  have vals: "progress_values new = map (\<lambda>k. real k / real ?T * 100) [1..<Suc n]"
    using reported_values[OF new(2)] len by simp
  have sorted: "sorted (progress_values new)"
    unfolding vals
    by (simp add: sorted_map sorted_wrt_iff_nth_less divide_right_mono del: upt_Suc)
  have prog: "(\<exists>pre' i j. pre = pre' @ [SegmentCaptured i j])
           \<and> v = real (length (captured pre)) / real ?T * 100"
    if "new = pre @ Progress v # post" for pre v post
    using reported_progress[of ?T 0 False pre v post] new(2) that by simp
  have capt: "\<exists>v post'. post = Progress v # post'"
    if "new = pre @ SegmentCaptured i j # post" for pre i j post
    using reported_captured[of ?T 0 False pre i j post] new(2) that by simp
  have full: "captured pre = all_segments cfgs"
    if eq: "new = pre @ Progress 100 # post" for pre post
  proof -
    from prog[OF eq] have v: "100 = real (length (captured pre)) / real ?T * 100" by simp
    have T0: "?T \<noteq> 0"
    proof
      assume "?T = 0"
      with v show False by simp
    qed
    with v have "length (captured pre) = ?T" by (simp add: field_simps)
    moreover have "captured new = captured pre @ captured post" using eq by simp
    ultimately have "take ?T (captured new) = captured pre" by simp
    moreover have "length (captured pre) \<le> n" using len eq by simp
    with \<open>length (captured pre) = ?T\<close> new(4) have "n = ?T" by simp
    ultimately show ?thesis using new(3) by (simp add: total_segments_length)
  qed
  show ?thesis using new(1,3,4,5) vals sorted prog capt full by blast
qed

theorem progress_reporting_witness:
  "is_fulfilled (fst (processVideos example_host ''blob:source'' example_configs fresh_state))
   \<and> total_segments example_configs = 3
   \<and> progress_values
        (effects (snd (processVideos example_host ''blob:source'' example_configs fresh_state)))
       = [100 / 3, 200 / 3, 100]"
proof -
  let ?run = "processVideos example_host ''blob:source'' example_configs fresh_state"
  have run: "?run = (fst ?run, snd ?run)" by simp
  have f: "is_fulfilled (fst ?run)" by (simp add: example_run)
  have T: "total_segments example_configs = 3"
    by (simp add: total_segments_def example_configs_def)
  from progress_reporting[OF run] f obtain new where
    "effects (snd ?run) = effects fresh_state @ new"
    "progress_values new =
       map (\<lambda>k. real k / real (total_segments example_configs) * 100)
         [1..<Suc (total_segments example_configs)]"
    by auto
  then have "progress_values (effects (snd ?run)) = map (\<lambda>k. real k / 3 * 100) [1..<4]"
    by (simp add: fresh_state_def T)
  also have "[1..<4] = [1, 2, 3::nat]" by (simp add: upt_conv_Cons)
  finally show ?thesis using f T by simp
qed

section \<open>The cancellation flag\<close>

text \<open>
  Claim C6, as stated, fails: \<open>processVideos\<close> writes the flag on entry. Started on
  no configuration with the flag set (left by an earlier cancelled run) and with no
  call of \<open>cancelProcessing\<close>, it returns with the flag cleared.
\<close>

theorem processVideos_resets_flag:
  "processVideos example_host ''blob:source'' [] \<lparr>isCancelled = True, effects = []\<rparr> =
     (Fulfilled [], \<lparr>isCancelled = False, effects = []\<rparr>)"
  by (simp add: run_simps)

text \<open>
  Claim C6, amended. \<open>cancelProcessing\<close> sets the flag; \<open>processVideos\<close> clears it
  once, on entry, and from then on only reads it: whatever the flag was before, after
  the run it is set exactly when \<open>cancelProcessing\<close> was called during the run.
\<close>

theorem cancel_flag_reset_then_read_only:
  "isCancelled (cancelProcessing st0) = True
   \<and> (\<exists>new. effects (snd (processVideos h u cfgs st0)) = effects st0 @ new
         \<and> isCancelled (snd (processVideos h u cfgs st0)) = (CancelCalled \<in> set new))"
proof -
  obtain r st where run: "processVideos h u cfgs st0 = (r, st)"
    by (cases "processVideos h u cfgs st0") auto
  from processVideos_trace[OF run] show ?thesis using run
    by (auto simp: cancelProcessing_def)
qed

section \<open>One output per configuration\<close>

text \<open>
  Claim C2. In a fulfilled run there is one output record per configuration, in order
  and under the configuration's name. For a configuration of one segment its blob is
  the blob recorded for that segment and \<open>combineVideoSegments\<close> is not called for it;
  for any other configuration \<open>combineVideoSegments\<close> is called exactly once, on the
  list of the blobs recorded for its segments, and the output's blob is what that call
  returns.
\<close>

theorem one_output_per_configuration:
  assumes run: "processVideos h u cfgs st0 = (Fulfilled outs, st)"
  shows "length outs = length cfgs
     \<and> (\<exists>new. effects st = effects st0 @ new
          \<and> (\<forall>i<length cfgs.
                name (outs ! i) = cfg_name (cfgs ! i)
              \<and> (length (segments (cfgs ! i)) = 1 \<longrightarrow>
                    extract_outcome h i 0 (getVideoProperties h u) = Fulfilled (blob (outs ! i))
                  \<and> combine_calls i new = [])
              \<and> (length (segments (cfgs ! i)) \<noteq> 1 \<longrightarrow>
                    (\<exists>bs. combine_calls i new = [bs]
                       \<and> length bs = length (segments (cfgs ! i))
                       \<and> (\<forall>j<length bs.
                             extract_outcome h i j (getVideoProperties h u) = Fulfilled (bs ! j))
                       \<and> (\<forall>s. fst (combineVideoSegments h i bs (getVideoProperties h u) s)
                                = Fulfilled (blob (outs ! i)))))))"
proof -
  let ?vp = "getVideoProperties h u"
  let ?st1 = "while_pending (cancel_during_load h) (st0\<lparr>isCancelled := False\<rparr>)"
  have loads: "source_loads h"
  proof (rule ccontr)
    assume "\<not> source_loads h"
    from processVideos_not_loaded[OF this, of u cfgs st0] run show False by simp
  qed
  with run have cl: "config_loop h u ?vp (total_segments cfgs) cfgs 0 [] 0 ?st1 = (Fulfilled outs, st)"
    by (simp add: processVideos_loaded)
  from processVideos_trace[OF run] obtain new where new: "effects st = effects st0 @ new"
    by blast
  from config_loop_fulfilled[OF cl] have len: "length outs = length cfgs"
    and each: "\<forall>i. i < length cfgs \<longrightarrow>
         (\<exists>calls. combine_calls i (effects st) = combine_calls i (effects ?st1) @ calls
               \<and> produced h ?vp i (cfgs ! i) (outs ! i) calls)"
    by simp_all
  have "name (outs ! i) = cfg_name (cfgs ! i)
              \<and> (length (segments (cfgs ! i)) = 1 \<longrightarrow>
                    extract_outcome h i 0 ?vp = Fulfilled (blob (outs ! i))
                  \<and> combine_calls i new = [])
              \<and> (length (segments (cfgs ! i)) \<noteq> 1 \<longrightarrow>
                    (\<exists>bs. combine_calls i new = [bs]
                       \<and> length bs = length (segments (cfgs ! i))
                       \<and> (\<forall>j<length bs. extract_outcome h i j ?vp = Fulfilled (bs ! j))
                       \<and> (\<forall>s. fst (combineVideoSegments h i bs ?vp s)
                                = Fulfilled (blob (outs ! i)))))"
    if i: "i < length cfgs" for i
  proof -
    from each i obtain calls where calls:
      "combine_calls i (effects st) = combine_calls i (effects ?st1) @ calls"
      "produced h ?vp i (cfgs ! i) (outs ! i) calls" by blast
    have "combine_calls i (effects ?st1) = combine_calls i (effects st0)" by simp
    with calls(1) new have c: "combine_calls i new = calls" by simp
    have "fst (combineVideoSegments h i bs ?vp s) = combine_outcome h i ?vp"
      if "2 \<le> length bs" for bs s
      using that by (auto simp: combineVideoSegments_def)
    with calls(2) c show ?thesis unfolding produced_def by auto
  qed
  with len new show ?thesis by blast
qed

theorem one_output_per_configuration_witness:
  "processVideos example_host ''blob:source'' example_configs fresh_state =
     (Fulfilled
        [\<lparr>name = ''Clip A'', url = ''blob:0'',
          blob = \<lparr>blob_data = [0, 0], blob_type = ''video/mp4''\<rparr>,
          format = Some ''video/mp4''\<rparr>,
         \<lparr>name = ''Clip B'', url = ''blob:1'',
          blob = \<lparr>blob_data = [1], blob_type = ''video/mp4''\<rparr>,
          format = Some ''video/mp4''\<rparr>],
      snd (processVideos example_host ''blob:source'' example_configs fresh_state))
   \<and> extract_outcome example_host 0 0 (getVideoProperties example_host ''blob:source'') =
       Fulfilled \<lparr>blob_data = [0, 0], blob_type = ''video/mp4''\<rparr>
   \<and> combine_calls 0
        (effects (snd (processVideos example_host ''blob:source'' example_configs fresh_state)))
       = []
   \<and> (\<exists>bs. combine_calls 1
        (effects (snd (processVideos example_host ''blob:source'' example_configs fresh_state)))
       = [bs] \<and> length bs = 2)"
proof -
  let ?run = "processVideos example_host ''blob:source'' example_configs fresh_state"
  let ?outs = "[\<lparr>name = ''Clip A'', url = ''blob:0'',
          blob = \<lparr>blob_data = [0, 0], blob_type = ''video/mp4''\<rparr>,
          format = Some ''video/mp4''\<rparr>,
         \<lparr>name = ''Clip B'', url = ''blob:1'',
          blob = \<lparr>blob_data = [1], blob_type = ''video/mp4''\<rparr>,
          format = Some ''video/mp4''\<rparr>]"
  have run: "?run = (Fulfilled ?outs, snd ?run)" by (simp add: example_run)
  have len: "length example_configs = 2"
    "length (segments (example_configs ! 0)) = 1" "length (segments (example_configs ! 1)) = 2"
    by (simp_all add: example_configs_def)
  from one_output_per_configuration[OF run] obtain new where new:
    "effects (snd ?run) = effects fresh_state @ new"
    "\<forall>i<length example_configs.
        (length (segments (example_configs ! i)) = 1 \<longrightarrow>
           extract_outcome example_host i 0 (getVideoProperties example_host ''blob:source'')
             = Fulfilled (blob (?outs ! i))
           \<and> combine_calls i new = [])
      \<and> (length (segments (example_configs ! i)) \<noteq> 1 \<longrightarrow>
           (\<exists>bs. combine_calls i new = [bs]
              \<and> length bs = length (segments (example_configs ! i))))"
    by blast
  have eff: "effects (snd ?run) = new" using new(1) by (simp add: fresh_state_def)
  from new(2) len have
    "extract_outcome example_host 0 0 (getVideoProperties example_host ''blob:source'')
       = Fulfilled (blob (?outs ! 0)) \<and> combine_calls 0 new = []"
    by (metis zero_less_numeral)
  moreover from new(2) len have "\<exists>bs. combine_calls 1 new = [bs] \<and> length bs = 2"
    by (metis one_less_numeral_iff semiring_norm(76) numeral_eq_one_iff num.distinct(1))
  ultimately show ?thesis using run eff by simp
qed

section \<open>Failure aborts the batch\<close>



section \<open>Cancellation\<close>

text \<open>
  Claim C4, as stated, fails when the cancellation is requested during the last
  configuration: the flag is not read again, and the call returns the complete list
  of results instead of a cancellation failure.
\<close>

theorem cancel_during_last_configuration:
  "cancel_during_extract cancelling_host 0 0
   \<and> processVideos cancelling_host ''blob:source''
        [\<lparr>cfg_name = ''Clip A'', segments = [\<lparr>seg_start = 0, seg_end = 5\<rparr>]\<rparr>] fresh_state =
       (Fulfilled
          [\<lparr>name = ''Clip A'', url = ''blob:0'',
            blob = \<lparr>blob_data = [0, 0], blob_type = ''video/mp4''\<rparr>,
            format = Some ''video/mp4''\<rparr>],
        \<lparr>isCancelled = True,
         effects = [ExtractCalled 0 0 0 5, CancelCalled, SegmentCaptured 0 0, Progress 100]\<rparr>)"
  by (simp add: run_simps)

text \<open>
  Claim C4, amended. The flag is read at the head of each iteration of the loop over
  the configurations and nowhere else. Let the first request for cancellation come
  during the load (\<open>N = 0\<close>) or while the configuration with index \<open>N - 1\<close> is
  processed, and let the first \<open>N\<close> configurations succeed. Then exactly the segments
  of the first \<open>N\<close> configurations are extracted and captured (the configuration in
  progress is finished, no later one starts); if a configuration remains, the call is
  rejected with \<open>Processing cancelled\<close>; if none remains, the call returns all
  \<open>N\<close> outputs.
\<close>

theorem cancellation_between_configurations:
  assumes run: "processVideos h u cfgs st0 = (r, st)"
    and loads: "source_loads h"
    and N: "N \<le> length cfgs"
    and ok: "\<forall>i<N. config_ok h (getVideoProperties h u) i (cfgs ! i)"
    and first: "(N = 0 \<and> cancel_during_load h)
        \<or> (0 < N \<and> \<not> cancel_during_load h
             \<and> (\<forall>i. Suc i < N \<longrightarrow> \<not> cancel_in_config h i (cfgs ! i))
             \<and> cancel_in_config h (N - 1) (cfgs ! (N - 1)))"
  shows "(N < length cfgs \<longrightarrow> r = Rejected ''Processing cancelled'')
     \<and> (N = length cfgs \<longrightarrow> (\<exists>outs. r = Fulfilled outs \<and> length outs = length cfgs))
     \<and> (\<exists>new. effects st = effects st0 @ new
           \<and> extract_calls new = segments_before cfgs N
           \<and> captured new = segments_before cfgs N)"
proof -
  let ?vp = "getVideoProperties h u"
  let ?T = "total_segments cfgs"
  let ?st1 = "while_pending (cancel_during_load h) (st0\<lparr>isCancelled := False\<rparr>)"
  from run loads have cl: "config_loop h u ?vp ?T cfgs 0 [] 0 ?st1 = (r, st)"
    by (simp add: processVideos_loaded)
  from processVideos_trace[OF run] obtain new where new: "effects st = effects st0 @ new"
    by blast
  have st1: "extract_calls (effects ?st1) = extract_calls (effects st0)"
    "captured (effects ?st1) = captured (effects st0)" by simp_all
  obtain outs' p' st' where adv:
    "config_loop h u ?vp ?T cfgs 0 [] 0 ?st1 = config_loop h u ?vp ?T cfgs N outs' p' st'"
    "length outs' = N"
    "extract_calls (effects st') = extract_calls (effects ?st1) @ segments_before cfgs N"
    "captured (effects st') = captured (effects ?st1) @ segments_before cfgs N"
    "N < length cfgs \<longrightarrow> isCancelled st'"
  proof (cases "N = 0")
    case True
    with first have "isCancelled ?st1" by simp
    with True that[of "[]" 0 ?st1] show ?thesis by (simp add: segments_before_def)
  next
    case False
    with first have nc: "\<not> isCancelled ?st1"
      and quiet: "\<forall>i. Suc i < N \<longrightarrow> \<not> cancel_in_config h i (cfgs ! i)"
      and c: "cancel_in_config h (N - 1) (cfgs ! (N - 1))" by simp_all
    from config_loop_advance[OF N nc ok quiet, of u ?T] c False that show ?thesis by auto
  qed
  from cl adv(1) have at_N: "config_loop h u ?vp ?T cfgs N outs' p' st' = (r, st)" by simp
  have a: "r = Rejected ''Processing cancelled''" and a': "st = st'" if "N < length cfgs"
    using at_N adv(5) that by (simp_all add: config_loop_cancelled)
  have b: "r = Fulfilled outs'" and b': "st = st'" if "N = length cfgs"
    using at_N that by (simp_all add: config_loop_finished)
  have "st = st'" using a' b' N by (cases "N < length cfgs") simp_all
  with adv(3,4) st1 new have "extract_calls new = segments_before cfgs N"
    "captured new = segments_before cfgs N" by simp_all
  with a b adv(2) new show ?thesis by blast
qed

theorem cancellation_between_configurations_witness:
  "config_ok cancelling_host (getVideoProperties cancelling_host ''blob:source'') 0
     (example_configs ! 0)
   \<and> cancel_in_config cancelling_host 0 (example_configs ! 0)
   \<and> 1 < length example_configs
   \<and> fst (processVideos cancelling_host ''blob:source'' example_configs fresh_state) =
       Rejected ''Processing cancelled''
   \<and> extract_calls
        (effects (snd (processVideos cancelling_host ''blob:source'' example_configs fresh_state)))
       = segments_before example_configs 1"
proof -
  let ?vp = "getVideoProperties cancelling_host ''blob:source''"
  let ?run = "processVideos cancelling_host ''blob:source'' example_configs fresh_state"
  have ok: "config_ok cancelling_host ?vp 0 (example_configs ! 0)"
    by (simp add: config_ok_def example_configs_def extract_outcome_def cancelling_host_simps)
  have c: "cancel_in_config cancelling_host 0 (example_configs ! 0)"
    by (simp add: cancel_in_config_def example_configs_def cancelling_host_simps)
  have oks: "\<forall>i<1. config_ok cancelling_host ?vp i (example_configs ! i)"
    using ok by simp
  have first: "(1 = (0::nat) \<and> cancel_during_load cancelling_host)
        \<or> (0 < (1::nat) \<and> \<not> cancel_during_load cancelling_host
             \<and> (\<forall>i. Suc i < 1 \<longrightarrow> \<not> cancel_in_config cancelling_host i (example_configs ! i))
             \<and> cancel_in_config cancelling_host (1 - 1) (example_configs ! (1 - 1)))"
    using c by (simp add: cancelling_host_simps)
  have len: "length example_configs = 2" by (simp add: example_configs_def)
  have N: "1 \<le> length example_configs" by (simp add: len)
  have loads: "source_loads cancelling_host" by (simp add: cancelling_host_simps)
  have run: "?run = (fst ?run, snd ?run)" by simp
  from cancellation_between_configurations[OF run loads N oks first]
  have "fst ?run = Rejected ''Processing cancelled''"
    and "\<exists>new. effects (snd ?run) = effects fresh_state @ new
           \<and> extract_calls new = segments_before example_configs 1
           \<and> captured new = segments_before example_configs 1"
    by (simp_all add: len)
  then show ?thesis using ok c len by (auto simp: fresh_state_def)
qed

end
